theory Spec2Isabelle
  imports Complex_Main
begin

section \<open>Strings of the host language\<close>

text \<open>
  Source strings are modelled as \<^typ>\<open>string\<close>. The model covers texts whose code
  units lie below 256; \<open>length\<close> then counts what the source's \<open>.length\<close> counts.
\<close>

definition digit_char :: "nat \<Rightarrow> char" where
  "digit_char d = ''0123456789'' ! d"

text \<open>Decimal rendering of a non-negative integer, as template literals and
  \<open>Number.prototype.toString\<close> produce it.\<close>

function toString :: "nat \<Rightarrow> string" where
  "toString n = (if n < 10 then [digit_char n] else toString (n div 10) @ [digit_char (n mod 10)])"
  by pat_completeness auto
termination
  by (relation "measure (\<lambda>n. n)") auto

declare toString.simps [simp del]

text \<open>\<open>Array.prototype.join\<close> with a separator.\<close>

fun join :: "string \<Rightarrow> string list \<Rightarrow> string" where
  "join sep [] = []"
| "join sep [x] = x"
| "join sep (x # y # ys) = x @ sep @ join sep (y # ys)"

text \<open>White space and line terminators stripped by \<open>String.prototype.trim\<close>
  (those below code unit 256).\<close>

definition isWhiteSpace :: "char \<Rightarrow> bool" where
  "isWhiteSpace c = (of_char c \<in> {9, 10, 11, 12, 13, 32, 160 :: nat})"

definition trim :: "string \<Rightarrow> string" where
  "trim s = rev (dropWhile isWhiteSpace (rev (dropWhile isWhiteSpace s)))"

section \<open>services/pdfService.ts\<close>

text \<open>
  The text-extraction collaborator: loading the document either rejects with a message or
  yields the document's pages; reading a page either rejects or yields the \<open>str\<close> of its
  text items in order.
\<close>

datatype pdf_page = PageFailed string | PageText (pageItems: "string list")

datatype pdf_file = LoadFailed string | Loaded "pdf_page list"

definition getPage :: "pdf_page list \<Rightarrow> nat \<Rightarrow> string + string list" where
  "getPage pages i =
     (if 1 \<le> i \<and> i \<le> length pages
      then (case pages ! (i - 1) of PageFailed m \<Rightarrow> Inl m | PageText items \<Rightarrow> Inr items)
      else Inl ''Invalid page request'')"

text \<open>The loop \<open>for (let i = 1; i <= maxPages; i++)\<close>, with \<open>fullText\<close> threaded through.\<close>

function pageLoop :: "pdf_page list \<Rightarrow> nat \<Rightarrow> nat \<Rightarrow> string \<Rightarrow> string + string" where
  "pageLoop pages maxPages i fullText =
     (if i \<le> maxPages
      then (case getPage pages i of
              Inl m \<Rightarrow> Inl m
            | Inr items \<Rightarrow>
                pageLoop pages maxPages (i + 1)
                  (fullText @ ''[Page '' @ toString i @ ''] '' @ join '' '' items @ [CHR 10]))
      else Inr fullText)"
  by pat_completeness auto
termination
  by (relation "measure (\<lambda>(pages, maxPages, i, fullText). maxPages + 1 - i)") auto

declare pageLoop.simps [simp del]

text \<open>The text one iteration of the loop appends for page \<open>k\<close> (numbered from 1).\<close>

definition pageLine :: "pdf_page list \<Rightarrow> nat \<Rightarrow> string" where
  "pageLine pages k =
     ''[Page '' @ toString k @ ''] '' @ join '' '' (pageItems (pages ! (k - 1))) @ [CHR 10]"

definition truncationNotice :: "nat \<Rightarrow> string" where
  "truncationNotice maxPages =
     [CHR 10] @ ''[...Truncated. Analysis limited to first '' @ toString maxPages @ '' pages...]''"

text \<open>The body of the \<open>try\<close> block, after the document has loaded.\<close>

definition extractBody :: "pdf_page list \<Rightarrow> string + string" where
  "extractBody pages =
     (let numPages = length pages;
          maxPages = min numPages 10
      in case pageLoop pages maxPages 1 [] of
           Inl m \<Rightarrow> Inl m
         | Inr fullText \<Rightarrow>
             (let fullText' = (if numPages > maxPages then fullText @ truncationNotice maxPages
                               else fullText)
              in if trim fullText' = []
                 then Inl ''No text content found in PDF. It might be an image-only scan.''
                 else Inr fullText'))"

text \<open>The \<open>catch\<close> clause rethrows the message, or a default when the message is empty.\<close>

definition rethrowPdf :: "string \<Rightarrow> string" where
  "rethrowPdf m =
     (if m = [] then ''Failed to parse PDF file. Ensure the file is a valid PDF.'' else m)"

definition extractTextFromPdf :: "pdf_file \<Rightarrow> string + string" where
  "extractTextFromPdf file =
     (case file of
        LoadFailed m \<Rightarrow> Inl (rethrowPdf m)
      | Loaded pages \<Rightarrow>
          (case extractBody pages of Inl m \<Rightarrow> Inl (rethrowPdf m) | Inr t \<Rightarrow> Inr t))"

section \<open>JSON values and \<open>JSON.parse\<close>\<close>

text \<open>
  \<open>JSON.parse\<close> belongs to the host language, not to the repository; it is modelled here
  after the JSON grammar. A string value is the list of its UTF-16 code units, so that an
  escape \<open>\u\<close> can name any of them. A number keeps its literal. An object keeps its
  members in the order written; a later duplicate key overrides an earlier one on lookup.
\<close>

text \<open>The code units of a text.\<close>

definition units :: "string \<Rightarrow> nat list" where
  "units s = map of_char s"

datatype json =
    JNull
  | JBool bool
  | JNum string
  | JStr "nat list"
  | JArr "json list"
  | JObj "(nat list \<times> json) list"

datatype token =
    TLBrace | TRBrace | TLBrack | TRBrack | TColon | TComma
  | TStr "nat list" | TNum string | TTrue | TFalse | TNull

definition isJsonWhiteSpace :: "char \<Rightarrow> bool" where
  "isJsonWhiteSpace c = (of_char c \<in> {9, 10, 13, 32 :: nat})"

definition isDigit :: "char \<Rightarrow> bool" where
  "isDigit c = (c \<in> set ''0123456789'')"

definition isNumChar :: "char \<Rightarrow> bool" where
  "isNumChar c = (c \<in> set ''+-.0123456789eE'')"

definition hexValue :: "char \<Rightarrow> nat option" where
  "hexValue c =
     map_of [(CHR ''0'', 0), (CHR ''1'', 1), (CHR ''2'', 2), (CHR ''3'', 3), (CHR ''4'', 4),
             (CHR ''5'', 5), (CHR ''6'', 6), (CHR ''7'', 7), (CHR ''8'', 8), (CHR ''9'', 9),
             (CHR ''a'', 10), (CHR ''b'', 11), (CHR ''c'', 12), (CHR ''d'', 13),
             (CHR ''e'', 14), (CHR ''f'', 15), (CHR ''A'', 10), (CHR ''B'', 11),
             (CHR ''C'', 12), (CHR ''D'', 13), (CHR ''E'', 14), (CHR ''F'', 15)] c"

text \<open>The code unit a one-letter escape stands for.\<close>

definition unescape :: "char \<Rightarrow> nat option" where
  "unescape e =
     map_of [(CHR 34, 34), (CHR 92, 92), (CHR ''/'', 47),
             (CHR ''b'', 8), (CHR ''f'', 12), (CHR ''n'', 10),
             (CHR ''r'', 13), (CHR ''t'', 9)] e"

text \<open>The rest of a string literal after its opening quote: the decoded content and
  what follows the closing quote.\<close>

fun lexString :: "string \<Rightarrow> nat list \<Rightarrow> (nat list \<times> string) option" where
  "lexString [] acc = None"
| "lexString (c # cs) acc =
     (if c = CHR 34 then Some (rev acc, cs)
      else if c = CHR 92 then
        (case cs of
           [] \<Rightarrow> None
         | e # cs' \<Rightarrow>
             if e = CHR ''u'' then
               (case cs' of
                  h1 # h2 # h3 # h4 # cs'' \<Rightarrow>
                    (case (hexValue h1, hexValue h2, hexValue h3, hexValue h4) of
                       (Some a, Some b, Some c', Some d) \<Rightarrow>
                         lexString cs'' ((4096 * a + 256 * b + 16 * c' + d) # acc)
                     | _ \<Rightarrow> None)
                | _ \<Rightarrow> None)
             else (case unescape e of
                     None \<Rightarrow> None
                   | Some ch \<Rightarrow> lexString cs' (ch # acc)))
      else if of_char c < (32 :: nat) then None
      else lexString cs (of_char c # acc))"

fun startsWith :: "string \<Rightarrow> string \<Rightarrow> bool" where
  "startsWith s [] = True"
| "startsWith [] (p # ps) = False"
| "startsWith (c # cs) (p # ps) = (c = p \<and> startsWith cs ps)"

text \<open>The number grammar: an optional minus, an integer part without leading zeros, an
  optional fraction, an optional exponent.\<close>

definition validExp :: "string \<Rightarrow> bool" where
  "validExp s =
     (case s of
        [] \<Rightarrow> True
      | e # r \<Rightarrow>
          (e = CHR ''e'' \<or> e = CHR ''E'') \<and>
          (let r' = (case r of
                       [] \<Rightarrow> []
                     | g # r2 \<Rightarrow> if g = CHR ''+'' \<or> g = CHR ''-'' then r2 else r)
           in r' \<noteq> [] \<and> list_all isDigit r'))"

definition validFrac :: "string \<Rightarrow> bool" where
  "validFrac s =
     (case s of
        [] \<Rightarrow> True
      | c # r \<Rightarrow>
          if c = CHR ''.''
          then takeWhile isDigit r \<noteq> [] \<and> validExp (dropWhile isDigit r)
          else validExp s)"

definition validNumber :: "string \<Rightarrow> bool" where
  "validNumber s =
     (let s1 = (case s of [] \<Rightarrow> [] | c # r \<Rightarrow> if c = CHR ''-'' then r else s)
      in case s1 of
           [] \<Rightarrow> False
         | d # r \<Rightarrow>
             if d = CHR ''0'' then validFrac r
             else isDigit d \<and> validFrac (dropWhile isDigit r))"

text \<open>The token that starts with the character \<open>c\<close>, and what follows it.\<close>

definition punctuation :: "char \<Rightarrow> token option" where
  "punctuation c =
     map_of [(CHR ''{'', TLBrace), (CHR ''}'', TRBrace), (CHR ''['', TLBrack),
             (CHR '']'', TRBrack), (CHR '':'', TColon), (CHR '','', TComma)] c"

definition startsNumber :: "char \<Rightarrow> bool" where
  "startsNumber c = (c \<in> set ''-0123456789'')"

definition nextToken :: "char \<Rightarrow> string \<Rightarrow> (token \<times> string) option" where
  "nextToken c cs =
     (case punctuation c of
        Some t \<Rightarrow> Some (t, cs)
      | None \<Rightarrow>
          if c = CHR 34 then
            (case lexString cs [] of
               None \<Rightarrow> None
             | Some (s, rest) \<Rightarrow> Some (TStr s, rest))
          else if startsNumber c then
            (let lit = takeWhile isNumChar (c # cs);
                 rest = dropWhile isNumChar (c # cs)
             in if validNumber lit then Some (TNum lit, rest) else None)
          else if startsWith (c # cs) ''true'' then Some (TTrue, drop 4 (c # cs))
          else if startsWith (c # cs) ''false'' then Some (TFalse, drop 5 (c # cs))
          else if startsWith (c # cs) ''null'' then Some (TNull, drop 4 (c # cs))
          else None)"

text \<open>Tokens of a text. Every step consumes at least one character, so fuel above the
  length of the text never runs out; \<open>None\<close> is a syntax error.\<close>

fun lexer :: "nat \<Rightarrow> string \<Rightarrow> token list option" where
  "lexer 0 s = None"
| "lexer (Suc n) [] = Some []"
| "lexer (Suc n) (c # cs) =
     (if isJsonWhiteSpace c then lexer n cs
      else (case nextToken c cs of
              None \<Rightarrow> None
            | Some (t, rest) \<Rightarrow> map_option ((#) t) (lexer n rest)))"

text \<open>Recursive descent over the tokens: a value and the tokens after it. Between two
  calls at least one token is consumed on every second call, so fuel above twice the
  number of tokens never runs out.\<close>

fun parseValue :: "nat \<Rightarrow> token list \<Rightarrow> (json \<times> token list) option"
  and parseElements :: "nat \<Rightarrow> token list \<Rightarrow> json list \<Rightarrow> (json \<times> token list) option"
  and parseMembers :: "nat \<Rightarrow> token list \<Rightarrow> (nat list \<times> json) list \<Rightarrow> (json \<times> token list) option"
where
  "parseValue 0 ts = None"
| "parseValue (Suc n) [] = None"
| "parseValue (Suc n) (t # ts) =
     (case t of
        TNull \<Rightarrow> Some (JNull, ts)
      | TTrue \<Rightarrow> Some (JBool True, ts)
      | TFalse \<Rightarrow> Some (JBool False, ts)
      | TNum s \<Rightarrow> Some (JNum s, ts)
      | TStr s \<Rightarrow> Some (JStr s, ts)
      | TLBrack \<Rightarrow>
          (case ts of
             TRBrack # r \<Rightarrow> Some (JArr [], r)
           | _ \<Rightarrow> parseElements n ts [])
      | TLBrace \<Rightarrow>
          (case ts of
             TRBrace # r \<Rightarrow> Some (JObj [], r)
           | _ \<Rightarrow> parseMembers n ts [])
      | _ \<Rightarrow> None)"
| "parseElements 0 ts acc = None"
| "parseElements (Suc n) ts acc =
     (case parseValue n ts of
        None \<Rightarrow> None
      | Some (v, r) \<Rightarrow>
          (case r of
             TComma # r' \<Rightarrow> parseElements n r' (v # acc)
           | TRBrack # r' \<Rightarrow> Some (JArr (rev (v # acc)), r')
           | _ \<Rightarrow> None))"
| "parseMembers 0 ts acc = None"
| "parseMembers (Suc n) ts acc =
     (case ts of
        TStr k # TColon # r \<Rightarrow>
          (case parseValue n r of
             None \<Rightarrow> None
           | Some (v, r') \<Rightarrow>
               (case r' of
                  TComma # r'' \<Rightarrow> parseMembers n r'' ((k, v) # acc)
                | TRBrace # r'' \<Rightarrow> Some (JObj (rev ((k, v) # acc)), r'')
                | _ \<Rightarrow> None))
      | _ \<Rightarrow> None)"

definition JSON_parse :: "string \<Rightarrow> json option" where
  "JSON_parse s =
     (case lexer (Suc (length s)) s of
        None \<Rightarrow> None
      | Some ts \<Rightarrow>
          (case parseValue (2 * length ts + 2) ts of
             Some (v, []) \<Rightarrow> Some v
           | _ \<Rightarrow> None))"

text \<open>Property access on a parsed value: \<open>None\<close> is \<open>undefined\<close>.\<close>

definition getProp :: "json \<Rightarrow> string \<Rightarrow> json option" where
  "getProp j k = (case j of JObj kvs \<Rightarrow> map_of (rev kvs) (units k) | _ \<Rightarrow> None)"

text \<open>The value a number literal denotes: its digits, scaled by the power of ten that the
  exponent and the length of the fraction give.\<close>

definition digitValue :: "char \<Rightarrow> nat" where
  "digitValue c = (case hexValue c of Some d \<Rightarrow> d | None \<Rightarrow> 0)"

definition decimal :: "string \<Rightarrow> nat" where
  "decimal ds = foldl (\<lambda>a c. 10 * a + digitValue c) 0 ds"

definition numValue :: "string \<Rightarrow> rat" where
  "numValue s =
     (let neg = startsWith s ''-'';
          body = (if neg then drop 1 s else s);
          ip = takeWhile isDigit body;
          r1 = dropWhile isDigit body;
          hasFrac = startsWith r1 ''.'';
          fp = (if hasFrac then takeWhile isDigit (drop 1 r1) else []);
          r2 = (if hasFrac then dropWhile isDigit (drop 1 r1) else r1);
          ex = (case r2 of
                  [] \<Rightarrow> 0
                | e # r \<Rightarrow>
                    if startsWith r ''-'' then - int (decimal (drop 1 r))
                    else if startsWith r ''+'' then int (decimal (drop 1 r))
                    else int (decimal r));
          k = ex - int (length fp);
          m = of_nat (decimal (ip @ fp))
      in (if neg then - 1 else 1) * (if 0 \<le> k then m * 10 ^ nat k else m / 10 ^ nat (- k)))"

text \<open>The number a literal is read as is the double nearest to its value, ties to the
  even one. That double is zero exactly when the value is at most \<open>2 ^ -1075\<close> in
  magnitude, half the least positive double.\<close>

definition numIsZero :: "string \<Rightarrow> bool" where
  "numIsZero s = (\<bar>numValue s\<bar> \<le> 1 / 2 ^ 1075)"

text \<open>What \<open>!x\<close> negates: the truthiness of a value.\<close>

fun truthy :: "json option \<Rightarrow> bool" where
  "truthy None = False"
| "truthy (Some JNull) = False"
| "truthy (Some (JBool b)) = b"
| "truthy (Some (JNum s)) = (\<not> numIsZero s)"
| "truthy (Some (JStr s)) = (s \<noteq> [])"
| "truthy (Some (JArr xs)) = True"
| "truthy (Some (JObj kvs)) = True"

section \<open>services/geminiService.ts\<close>

text \<open>\<open>indexOf\<close> and \<open>lastIndexOf\<close> of a character: its first or last position, or \<open>-1\<close>.\<close>

definition indexOf :: "string \<Rightarrow> char \<Rightarrow> int" where
  "indexOf s c = (if c \<in> set s then int (length (takeWhile (\<lambda>x. x \<noteq> c) s)) else - 1)"

definition lastIndexOf :: "string \<Rightarrow> char \<Rightarrow> int" where
  "lastIndexOf s c =
     (if c \<in> set s then int (length s) - 1 - int (length (takeWhile (\<lambda>x. x \<noteq> c) (rev s)))
      else - 1)"

text \<open>\<open>substring(start, end)\<close>: both arguments are clamped to the string and swapped when
  out of order.\<close>

definition substring :: "string \<Rightarrow> int \<Rightarrow> int \<Rightarrow> string" where
  "substring s start end' =
     (let n = int (length s);
          a = max 0 (min start n);
          b = max 0 (min end' n);
          lo = min a b;
          hi = max a b
      in take (nat (hi - lo)) (drop (nat lo) s))"

fun includes_str :: "string \<Rightarrow> string \<Rightarrow> bool" where
  "includes_str [] sub = (sub = [])"
| "includes_str (c # cs) sub = (startsWith (c # cs) sub \<or> includes_str cs sub)"

datatype Part =
    InlineData (inlineData: string) (mimeType: string)
  | TextPart (partText: string)

datatype Mode = standard | deep

text \<open>The test \<open>/^(http|https):\/\/[^ "]+$/\<close>.\<close>

definition isUrl :: "string \<Rightarrow> bool" where
  "isUrl s =
     (let rest = (if startsWith s ''http://'' then Some (drop 7 s)
                  else if startsWith s ''https://'' then Some (drop 8 s)
                  else None)
      in case rest of
           None \<Rightarrow> False
         | Some r \<Rightarrow> r \<noteq> [] \<and> list_all (\<lambda>c. c \<noteq> CHR '' '' \<and> c \<noteq> CHR 34) r)"

definition promptPrefix :: "Mode \<Rightarrow> string" where
  "promptPrefix mode =
     (if mode = deep
      then ''CONDUCT A DEEP DIVE ANALYSIS. Search extensively for historical context, scientific consensus, and multiple viewpoints. Be extremely rigorous with evidence selection. ''
      else [])"

text \<open>Lines 31 to 57: the request parts. \<open>imageBase64\<close> is \<open>None\<close> when the argument is
  \<open>undefined\<close>; the empty string is as falsy as \<open>undefined\<close>.\<close>

definition buildParts :: "string \<Rightarrow> string option \<Rightarrow> Mode \<Rightarrow> Part list" where
  "buildParts text' imageBase64 mode =
     (case imageBase64 of
        Some b64 \<Rightarrow>
          if b64 \<noteq> []
          then [InlineData b64 ''image/jpeg'',
                TextPart (promptPrefix mode @ ''Analyze this image. ''
                          @ (if text' \<noteq> [] then ''Context: '' @ text' else []))]
          else (if isUrl (trim text')
                then [TextPart (promptPrefix mode @ ''Analyze the content at this URL: '' @ text'
                                @ ''. Extract claims and verify them.'')]
                else [TextPart (promptPrefix mode @ text')])
      | None \<Rightarrow>
          if isUrl (trim text')
          then [TextPart (promptPrefix mode @ ''Analyze the content at this URL: '' @ text'
                          @ ''. Extract claims and verify them.'')]
          else [TextPart (promptPrefix mode @ text')])"

definition modelId :: "Mode \<Rightarrow> string" where
  "modelId mode = (if mode = deep then ''gemini-3-pro-preview'' else ''gemini-2.5-flash'')"

text \<open>
  The generation service is a parameter: the configured key, and what a call with a model
  and request parts comes back with, either a rejection carrying a message or a response
  whose \<open>text\<close> may be \<open>undefined\<close>.
\<close>

record GenAI =
  apiKey :: "string option"
  generateContent :: "string \<Rightarrow> Part list \<Rightarrow> string + string option"

text \<open>What the inner \<open>try\<close> block can throw: the guard on the delimiters, \<open>JSON.parse\<close>,
  a property read on \<open>null\<close>, and the guard on the required fields.\<close>

datatype extraction_error =
    NoJsonFoundError
  | MalformedJsonError
  | NullResponseError
  | SchemaViolationError

text \<open>Lines 84 to 92: the candidate document.\<close>

definition locateJson :: "string \<Rightarrow> extraction_error + string" where
  "locateJson resultText =
     (let firstOpen = indexOf resultText (CHR ''{'');
          lastClose = lastIndexOf resultText (CHR ''}'')
      in if firstOpen = - 1 \<or> lastClose = - 1 then Inl NoJsonFoundError
         else Inr (substring resultText firstOpen (lastClose + 1)))"

text \<open>Lines 95 to 100: the basic validation.\<close>

definition validateResponse :: "json \<Rightarrow> extraction_error + json" where
  "validateResponse jsonResponse =
     (if jsonResponse = JNull then Inl NullResponseError
      else if \<not> truthy (getProp jsonResponse ''claims'')
              \<or> \<not> truthy (getProp jsonResponse ''overall_verdict'')
      then Inl SchemaViolationError
      else Inr jsonResponse)"

text \<open>Lines 84 to 100: the body of the inner \<open>try\<close>.\<close>

definition extractJson :: "string \<Rightarrow> extraction_error + json" where
  "extractJson resultText =
     (case locateJson resultText of
        Inl e \<Rightarrow> Inl e
      | Inr jsonString \<Rightarrow>
          (case JSON_parse jsonString of
             None \<Rightarrow> Inl MalformedJsonError
           | Some jsonResponse \<Rightarrow> validateResponse jsonResponse))"

text \<open>Lines 101 to 105: the \<open>catch\<close> replaces whatever was thrown by one message.\<close>

definition parseFailedMessage :: string where
  "parseFailedMessage =
     ''Failed to parse the fact-check results. The AI model output was not valid JSON.''"

definition extractOrThrow :: "string \<Rightarrow> string + json" where
  "extractOrThrow resultText =
     (case extractJson resultText of Inl e \<Rightarrow> Inl parseFailedMessage | Inr j \<Rightarrow> Inr j)"

text \<open>Lines 107 to 125: the outer \<open>catch\<close> maps the message of what was thrown.\<close>

definition friendlyMessage :: "string \<Rightarrow> string" where
  "friendlyMessage m =
     (if m = [] then ''An unexpected error occurred during analysis.''
      else if includes_str m ''API Key is missing''
        then ''API Key configuration error. Please check your environment.''
      else if includes_str m ''400'' then ''Request failed (400). Please try different content.''
      else if includes_str m ''403''
        then ''Permission denied. Please check API key and enabled services.''
      else if includes_str m ''404'' then ''Model or resource not found.''
      else if includes_str m ''429'' then ''Too many requests. Please wait a moment.''
      else if includes_str m ''SAFETY'' then ''Content blocked due to safety settings.''
      else if includes_str m ''JSON'' \<or> includes_str m ''response'' then m
      else ''Analysis failed: '' @ m)"

text \<open>Lines 29 to 105: the body of the outer \<open>try\<close>; \<open>Inl\<close> carries the message of the
  error thrown. The client is built on the first call and kept; the key it is built from
  does not change, so the test of the key is made on every call here.\<close>

definition analyzeBody :: "GenAI \<Rightarrow> string \<Rightarrow> string option \<Rightarrow> Mode \<Rightarrow> string + json" where
  "analyzeBody ai text' imageBase64 mode =
     (if apiKey ai = None \<or> apiKey ai = Some []
      then Inl ''API Key is missing. Please ensure process.env.API_KEY is configured.''
      else (case generateContent ai (modelId mode) (buildParts text' imageBase64 mode) of
              Inl m \<Rightarrow> Inl m
            | Inr None \<Rightarrow> Inl ''Received empty response from the model.''
            | Inr (Some resultText) \<Rightarrow>
                if resultText = [] then Inl ''Received empty response from the model.''
                else extractOrThrow resultText))"

definition analyzeContent :: "GenAI \<Rightarrow> string \<Rightarrow> string option \<Rightarrow> Mode \<Rightarrow> string + json" where
  "analyzeContent ai text' imageBase64 mode =
     (case analyzeBody ai text' imageBase64 mode of
        Inl m \<Rightarrow> Inl (friendlyMessage m)
      | Inr j \<Rightarrow> Inr j)"

subsection \<open>Vocabulary for the extraction properties\<close>

text \<open>The schema's invariant on claims, in the words of the specification: a claim whose
  verdict is not \<open>unknown\<close> has evidence. A result violates it when some entry of its
  \<open>claims\<close> array has another verdict and an empty \<open>evidence\<close> array.\<close>

definition claimLacksEvidence :: "json \<Rightarrow> bool" where
  "claimLacksEvidence c =
     (getProp c ''verdict'' \<noteq> Some (JStr (units ''unknown''))
      \<and> getProp c ''evidence'' = Some (JArr []))"

definition violatesEvidenceInvariant :: "json \<Rightarrow> bool" where
  "violatesEvidenceInvariant j =
     (case getProp j ''claims'' of
        Some (JArr cs) \<Rightarrow> list_ex claimLacksEvidence cs
      | _ \<Rightarrow> False)"

text \<open>Sample texts: a well-formed result object, and a result with a claim judged
  \<open>false\<close> on no evidence.\<close>

definition quoted :: "string \<Rightarrow> string" where
  "quoted s = [CHR 34] @ s @ [CHR 34]"

definition sampleMembers :: string where
  "sampleMembers =
     quoted ''claims'' @ '':[],'' @ quoted ''overall_verdict'' @ '':'' @ quoted ''unknown''"

definition sampleObject :: string where
  "sampleObject = CHR ''{'' # sampleMembers @ ''}''"

definition sampleValue :: json where
  "sampleValue =
     JObj [(units ''claims'', JArr []), (units ''overall_verdict'', JStr (units ''unknown''))]"

definition unsupportedVerdict :: json where
  "unsupportedVerdict =
     JObj [(units ''claims'',
            JArr [JObj [(units ''claim_text'', JStr (units ''The moon is made of cheese'')),
                        (units ''verdict'', JStr (units ''false'')),
                        (units ''evidence'', JArr [])]]),
           (units ''overall_verdict'', JStr (units ''false''))]"

definition unsupportedVerdictText :: string where
  "unsupportedVerdictText =
     ''{'' @ quoted ''claims'' @ '':[{'' @ quoted ''claim_text'' @ '':''
     @ quoted ''The moon is made of cheese'' @ '','' @ quoted ''verdict'' @ '':'' @ quoted ''false''
     @ '','' @ quoted ''evidence'' @ '':[]}],'' @ quoted ''overall_verdict'' @ '':''
     @ quoted ''false'' @ ''}''"

text \<open>Two more sample texts: an object whose \<open>claims\<close> is a number too small for a double,
  and an object whose verdict holds an escaped dash (code unit 8212).\<close>

definition underflowText :: string where
  "underflowText =
     ''{'' @ quoted ''claims'' @ '':1e-400,'' @ quoted ''overall_verdict'' @ '':''
     @ quoted ''true'' @ ''}''"

definition wideEscapeText :: string where
  "wideEscapeText =
     ''{'' @ quoted ''claims'' @ '':[],'' @ quoted ''overall_verdict'' @ '':''
     @ quoted ([CHR 92] @ ''u2014'') @ ''}''"

text \<open>A service with a key that answers every request with a given text.\<close>

definition answering :: "string \<Rightarrow> GenAI" where
  "answering t = \<lparr>apiKey = Some ''key'', generateContent = (\<lambda>m ps. Inr (Some t))\<rparr>"

section \<open>The application component (\<open>App\<close>)\<close>

text \<open>
  A file as the component sees it: its name, its MIME type, and its content, read either
  as base64 (for an image) or by the PDF collaborator.
\<close>

record File =
  file_name :: string
  file_type :: string
  file_base64 :: string
  file_pdf :: pdf_file

datatype Status = St_idle | St_analyzing | St_complete | St_error

record AnalysisState =
  status :: Status
  data :: "json option"
  error :: "string option"

text \<open>The verdict and the confidence of an entry are what the result holds under
  \<open>overall_verdict\<close> and \<open>overall_confidence\<close>.\<close>

record HistoryItem =
  hist_id :: string
  query :: string
  date :: nat
  hist_verdict :: "json option"
  confidence :: "json option"

text \<open>The state of the component that the analysis touches, and the entry
  \<open>factCheckHistory\<close> of the local storage.\<close>

record App =
  inputText :: string
  selectedImage :: "File option"
  selectedPdf :: "File option"
  state :: AnalysisState
  analysisMode :: Mode
  history :: "HistoryItem list"
  stored :: "HistoryItem list option"

text \<open>What a submission meets outside the component: the generation service, the two
  readings of the clock taken by \<open>addToHistory\<close>, and the local storage, whose \<open>setItem\<close>
  either writes or throws (when the quota is exceeded, say) with the message given.\<close>

record World =
  genAI :: GenAI
  clockId :: nat
  clockDate :: nat
  setItemError :: "string option"

definition initialApp :: "HistoryItem list option \<Rightarrow> App" where
  "initialApp saved =
     \<lparr>inputText = [], selectedImage = None, selectedPdf = None,
      state = \<lparr>status = St_idle, data = None, error = None\<rparr>,
      analysisMode = standard,
      history = (case saved of None \<Rightarrow> [] | Some h \<Rightarrow> h),
      stored = saved\<rparr>"

definition queryLabel :: "string \<Rightarrow> string" where
  "queryLabel q = (if length q > 60 then take 60 q @ ''...'' else q)"

definition newItem :: "World \<Rightarrow> string \<Rightarrow> json \<Rightarrow> HistoryItem" where
  "newItem w q result =
     \<lparr>hist_id = toString (clockId w), query = queryLabel q, date = clockDate w,
      hist_verdict = getProp result ''overall_verdict'',
      confidence = getProp result ''overall_confidence''\<rparr>"

text \<open>Lines 153 to 165. \<open>addToHistory\<close> reads \<open>history\<close> from the render it was created in
  (\<open>c\<close>), sets the new list in the component state (\<open>a\<close>) and then writes it to the
  storage. The result is what the call throws, if anything, and the state it leaves: when
  \<open>setItem\<close> throws, the list has been set in the component already.\<close>

definition addToHistory :: "App \<Rightarrow> World \<Rightarrow> string \<Rightarrow> json \<Rightarrow> App \<Rightarrow> string option \<times> App" where
  "addToHistory c w q result a =
     (let newHistory = take 10 (newItem w q result # history c);
          a' = a\<lparr>history := newHistory\<rparr>
      in case setItemError w of
           None \<Rightarrow> (None, a'\<lparr>stored := Some newHistory\<rparr>)
         | Some m \<Rightarrow> (Some m, a'))"

definition handleImageSelect :: "File \<Rightarrow> App \<Rightarrow> App" where
  "handleImageSelect f a = a\<lparr>selectedImage := Some f, selectedPdf := None\<rparr>"

definition handlePdfSelect :: "File \<Rightarrow> App \<Rightarrow> App" where
  "handlePdfSelect f a =
     (if file_type f \<noteq> ''application/pdf'' then a
      else a\<lparr>selectedPdf := Some f, selectedImage := None\<rparr>)"

definition removeMedia :: "App \<Rightarrow> App" where
  "removeMedia a = a\<lparr>selectedImage := None, selectedPdf := None\<rparr>"

definition setIdle :: "App \<Rightarrow> App" where
  "setIdle a = a\<lparr>state := \<lparr>status = St_idle, data = None, error = None\<rparr>\<rparr>"

definition clearAll :: "App \<Rightarrow> App" where
  "clearAll a = setIdle (removeMedia (a\<lparr>inputText := []\<rparr>))"

text \<open>\<open>String.prototype.split\<close> on a one-character separator.\<close>

fun split :: "char \<Rightarrow> string \<Rightarrow> string list" where
  "split sep [] = [[]]"
| "split sep (c # cs) =
     (if c = sep then [] # split sep cs
      else (case split sep cs of
              [] \<Rightarrow> [[c]]
            | p # ps \<Rightarrow> (c # p) # ps))"

text \<open>\<open>fileToBase64\<close>: what follows the first comma of the data URL of the file, up to
  the next comma; \<open>undefined\<close> when the URL has no comma.\<close>

definition dataUrl :: "File \<Rightarrow> string" where
  "dataUrl f = ''data:'' @ file_type f @ '';base64,'' @ file_base64 f"

definition fileToBase64 :: "File \<Rightarrow> string option" where
  "fileToBase64 f =
     (case split (CHR '','') (dataUrl f) of
        p0 # p1 # ps \<Rightarrow> Some p1
      | _ \<Rightarrow> None)"

text \<open>The guard at the head of \<open>handleSubmit\<close>.\<close>

definition canSubmit :: "App \<Rightarrow> bool" where
  "canSubmit c \<longleftrightarrow> \<not> (trim (inputText c) = [] \<and> selectedImage c = None \<and> selectedPdf c = None)"

text \<open>The text handed to the analysis: the input, followed by the text of the PDF when one
  is selected.\<close>

definition finalInputText :: "App \<Rightarrow> string + string" where
  "finalInputText c =
     (case selectedPdf c of
        None \<Rightarrow> Inr (inputText c)
      | Some f \<Rightarrow>
          (case extractTextFromPdf (file_pdf f) of
             Inl m \<Rightarrow> Inl (''Failed to read PDF file: '' @ m)
           | Inr pdfText \<Rightarrow>
               Inr ((if inputText c \<noteq> [] then inputText c @ [CHR 10, CHR 10] else [])
                    @ ''PDF CONTENT:'' @ [CHR 10] @ pdfText)))"

definition base64Image :: "App \<Rightarrow> string option" where
  "base64Image c = (case selectedImage c of None \<Rightarrow> None | Some f \<Rightarrow> fileToBase64 f)"

text \<open>The request parts a submission sends, when the PDF (if any) can be read.\<close>

definition requestParts :: "App \<Rightarrow> string + Part list" where
  "requestParts c =
     (case finalInputText c of
        Inl m \<Rightarrow> Inl m
      | Inr t \<Rightarrow> Inr (buildParts t (base64Image c) (analysisMode c)))"

text \<open>The \<open>try\<close> block of \<open>handleSubmit\<close> up to the return of \<open>analyzeContent\<close>.\<close>

definition submitOutcome :: "App \<Rightarrow> World \<Rightarrow> string + json" where
  "submitOutcome c w =
     (case finalInputText c of
        Inl m \<Rightarrow> Inl m
      | Inr t \<Rightarrow> analyzeContent (genAI w) t (base64Image c) (analysisMode c))"

definition historyQuery :: "App \<Rightarrow> string" where
  "historyQuery c =
     (case selectedPdf c of
        Some f \<Rightarrow> file_name f
      | None \<Rightarrow>
          if inputText c \<noteq> [] then inputText c
          else if selectedImage c \<noteq> None then ''Image Analysis''
          else ''Unknown'')"

text \<open>\<open>handleSubmit\<close> in two steps, as the component renders between them: the switch to
  \<open>analyzing\<close>, and the settlement once the awaited calls have returned. The handler works
  on the values of the render it was created in (\<open>c\<close>); the settlement writes into the
  state current then (\<open>a\<close>).\<close>

definition handleSubmit_begin :: "App \<Rightarrow> App" where
  "handleSubmit_begin a =
     (if canSubmit a then a\<lparr>state := \<lparr>status = St_analyzing, data = None, error = None\<rparr>\<rparr>
      else a)"

text \<open>Lines 327 to 334: the state the \<open>catch\<close> block sets for what was thrown.\<close>

definition errorState :: "string \<Rightarrow> AnalysisState" where
  "errorState m =
     \<lparr>status = St_error, data = None,
      error = Some (if m = [] then ''An unexpected error occurred. Please try again.'' else m)\<rparr>"

definition handleSubmit_settle :: "App \<Rightarrow> World \<Rightarrow> App \<Rightarrow> App" where
  "handleSubmit_settle c w a =
     (case submitOutcome c w of
        Inr result \<Rightarrow>
          (case addToHistory c w (historyQuery c) result a of
             (None, a') \<Rightarrow> a'\<lparr>state := \<lparr>status = St_complete, data = Some result, error = None\<rparr>\<rparr>
           | (Some m, a') \<Rightarrow> a'\<lparr>state := errorState m\<rparr>)
      | Inl m \<Rightarrow> a\<lparr>state := errorState m\<rparr>)"

text \<open>One run of \<open>handleSubmit\<close> with nothing happening in between.\<close>

definition handleSubmit :: "World \<Rightarrow> App \<Rightarrow> App" where
  "handleSubmit w a = (if canSubmit a then handleSubmit_settle a w (handleSubmit_begin a) else a)"

text \<open>The states the component can be in, from a start with a given stored history.\<close>

inductive reachable :: "HistoryItem list option \<Rightarrow> App \<Rightarrow> bool" for saved where
  r_init: "reachable saved (initialApp saved)"
| r_input: "reachable saved a \<Longrightarrow> reachable saved (a\<lparr>inputText := t\<rparr>)"
| r_image: "reachable saved a \<Longrightarrow> reachable saved (handleImageSelect f a)"
| r_pdf: "reachable saved a \<Longrightarrow> reachable saved (handlePdfSelect f a)"
| r_remove: "reachable saved a \<Longrightarrow> reachable saved (removeMedia a)"
| r_mode: "reachable saved a \<Longrightarrow> reachable saved (a\<lparr>analysisMode := m\<rparr>)"
| r_clearHistory: "reachable saved a \<Longrightarrow> reachable saved (a\<lparr>history := []\<rparr>)"
| r_clearAll: "reachable saved a \<Longrightarrow> reachable saved (clearAll a)"
| r_idle: "reachable saved a \<Longrightarrow> reachable saved (setIdle a)"
| r_begin: "reachable saved a \<Longrightarrow> reachable saved (handleSubmit_begin a)"
| r_settle: "reachable saved c \<Longrightarrow> canSubmit c \<Longrightarrow> reachable saved a \<Longrightarrow>
             reachable saved (handleSubmit_settle c w a)"

subsection \<open>Vocabulary for the history properties\<close>


subsection \<open>Sample inputs\<close>

text \<open>A PNG image as dropped onto the page, and a service without a key.\<close>

definition pngFile :: File where
  "pngFile = \<lparr>file_name = ''chart.png'', file_type = ''image/png'',
              file_base64 = ''iVBORw0KGgo='', file_pdf = LoadFailed ''Invalid PDF structure''\<rparr>"

definition noKeyWorld :: World where
  "noKeyWorld = \<lparr>genAI = \<lparr>apiKey = None, generateContent = (\<lambda>m ps. Inr None)\<rparr>,
                 clockId = 0, clockDate = 0, setItemError = None\<rparr>"

text \<open>A service that answers every request with the sample object.\<close>

definition okWorld :: World where
  "okWorld = \<lparr>genAI = answering sampleObject, clockId = 42, clockDate = 43, setItemError = None\<rparr>"

text \<open>The same service a little later, and with a storage that is full.\<close>

definition laterWorld :: World where
  "laterWorld = okWorld\<lparr>clockId := 99, clockDate := 100\<rparr>"


definition moonQuestion :: App where
  "moonQuestion = (initialApp None)\<lparr>inputText := ''Is the moon landing fake?''\<rparr>"


text \<open>A component started on a stored history of ten entries, dated 10 down to 1, with a
  question typed in.\<close>

definition oldEntry :: "nat \<Rightarrow> HistoryItem" where
  "oldEntry n = \<lparr>hist_id = toString n, query = ''earlier question'', date = n,
                 hist_verdict = None, confidence = None\<rparr>"

definition tenEntries :: "HistoryItem list" where
  "tenEntries = map oldEntry [10, 9, 8, 7, 6, 5, 4, 3, 2, 1]"


text \<open>Two submissions that overlap: the first is started, the view is reset to \<open>idle\<close>
  by the logo, the second is started, and then the first and the second settle.\<close>

definition secondStarted :: App where
  "secondStarted = handleSubmit_begin (setIdle (handleSubmit_begin moonQuestion))"

definition firstSettled :: App where
  "firstSettled = handleSubmit_settle moonQuestion okWorld secondStarted"

definition bothSettled :: App where
  "bothSettled = handleSubmit_settle (setIdle (handleSubmit_begin moonQuestion)) laterWorld firstSettled"

section \<open>types.ts\<close>

text \<open>
  The string-literal unions of the source (\<open>Verdict\<close>, \<open>SourceType\<close>, \<open>InputType\<close>,
  \<open>ClaimType\<close>) are strings at run time and no code checks their membership, so they are
  strings here. Numbers that the schema bounds to \<open>[0, 1]\<close> are reals; a count is an integer.
\<close>

type_synonym Verdict = string
type_synonym SourceType = string
type_synonym InputType = string
type_synonym ClaimType = string

record Evidence =
  source_title :: string
  source_url :: string
  source_type :: SourceType
  quote :: string
  extracted_text :: "string option"
  confidence_in_source :: real
  retrieved_at :: string

record Claim =
  claim_id :: string
  claim_text :: string
  claim_type :: ClaimType
  entities :: "string list"
  evidence :: "Evidence list"
  verdict :: Verdict
  verdict_confidence :: real
  reasoning :: string
  suggested_search_queries :: "string list"
  provenance :: "string list"

record SafetyWarning =
  category :: string
  message :: string
  recommended_action :: string

record InputSummary =
  input_type :: InputType
  raw_input_excerpt :: string
  detected_claims_count :: int

record MetaData =
  search_queries :: "string list"
  timestamp_utc :: string
  model :: string
  meta_notes :: "string option"
  vision_note :: "string option"

record FactCheckResponse =
  input_summary :: InputSummary
  claims :: "Claim list"
  overall_verdict :: Verdict
  overall_confidence :: real
  explainable_summary :: string
  suggested_actions :: "string list"
  safety_warnings :: "SafetyWarning list"
  meta :: MetaData

section \<open>services/reportService.ts\<close>

text \<open>
  The document-generation collaborator is a parameter: the page size it reports for the
  chosen format, how it wraps a text to a width in the current font, and how wide it
  measures a text. A font is its style and its size in points.
\<close>

type_synonym font = "string \<times> nat"

record PdfLib =
  pageWidth :: real
  pageHeight :: real
  splitTextToSize :: "font \<Rightarrow> string \<Rightarrow> real \<Rightarrow> string list"
  getTextWidth :: "font \<Rightarrow> string \<Rightarrow> real"

text \<open>What has been drawn: every drawing call with the page it landed on and its
  coordinates, in call order.\<close>

datatype draw =
    Text (opPage: nat) (opX: real) (opY: real) (opLines: "string list")
  | Line (opPage: nat) (opX: real) (opY: real) (opX2: real) (opY2: real)
  | RoundedRect (opPage: nat) (opX: real) (opY: real) (opW: real) (opH: real)
  | Link (opPage: nat) (opX: real) (opY: real) (opW: real) (opH: real) (opUrl: string)

text \<open>The state the function mutates: the document (page count, current page, drawing
  calls so far) and the closure variable \<open>y\<close>.\<close>

record Doc =
  numberOfPages :: nat
  currentPage :: nat
  yPos :: real
  ops :: "draw list"

definition margin :: real where
  "margin = 20"

definition contentWidth :: "PdfLib \<Rightarrow> real" where
  "contentWidth lib = pageWidth lib - (margin * 2)"

definition newDoc :: Doc where
  "newDoc = \<lparr>numberOfPages = 1, currentPage = 1, yPos = 20, ops = []\<rparr>"

definition addPage :: "Doc \<Rightarrow> Doc" where
  "addPage d = d\<lparr>numberOfPages := numberOfPages d + 1, currentPage := numberOfPages d + 1\<rparr>"

text \<open>Lines 19 to 26. The value returned is used by no caller.\<close>

definition checkPageBreak :: "PdfLib \<Rightarrow> real \<Rightarrow> Doc \<Rightarrow> Doc" where
  "checkPageBreak lib heightNeeded d =
     (if yPos d + heightNeeded > pageHeight lib - margin
      then (addPage d)\<lparr>yPos := 20\<rparr>
      else d)"

text \<open>Drawing calls at an offset from the cursor, and \<open>y += n\<close>.\<close>

definition emit :: "draw \<Rightarrow> Doc \<Rightarrow> Doc" where
  "emit x d = d\<lparr>ops := ops d @ [x]\<rparr>"

definition text_at :: "real \<Rightarrow> real \<Rightarrow> string list \<Rightarrow> Doc \<Rightarrow> Doc" where
  "text_at x dy ls d = emit (Text (currentPage d) x (yPos d + dy) ls) d"

definition line_at :: "real \<Rightarrow> real \<Rightarrow> Doc \<Rightarrow> Doc" where
  "line_at x1 x2 d = emit (Line (currentPage d) x1 (yPos d) x2 (yPos d)) d"

definition roundedRect_at :: "real \<Rightarrow> real \<Rightarrow> real \<Rightarrow> Doc \<Rightarrow> Doc" where
  "roundedRect_at x w h d = emit (RoundedRect (currentPage d) x (yPos d) w h) d"

definition link_at :: "real \<Rightarrow> real \<Rightarrow> real \<Rightarrow> real \<Rightarrow> string \<Rightarrow> Doc \<Rightarrow> Doc" where
  "link_at x dy w h u d = emit (Link (currentPage d) x (yPos d + dy) w h u) d"

definition advance :: "real \<Rightarrow> Doc \<Rightarrow> Doc" where
  "advance n d = d\<lparr>yPos := yPos d + n\<rparr>"

text \<open>
  The body of the function is a fixed sequence of drawing calls, cursor advances and calls
  of \<open>checkPageBreak\<close>, with two loops. It is kept as the list of its statements in source
  order, which \<open>run\<close> executes from left to right, so that the properties below can speak
  of the checks the function makes. Calls that set a font, a size or a colour change no
  position and are left out.
\<close>

datatype stmt =
    TextAt real real "string list"
  | LineAt real real
  | RoundedRectAt real real real
  | LinkAt real real real real string
  | Advance real
  | CheckPageBreak real

fun exec :: "PdfLib \<Rightarrow> stmt \<Rightarrow> Doc \<Rightarrow> Doc" where
  "exec lib (TextAt x dy ls) d = text_at x dy ls d"
| "exec lib (LineAt x1 x2) d = line_at x1 x2 d"
| "exec lib (RoundedRectAt x w h) d = roundedRect_at x w h d"
| "exec lib (LinkAt x dy w h u) d = link_at x dy w h u d"
| "exec lib (Advance n) d = advance n d"
| "exec lib (CheckPageBreak h) d = checkPageBreak lib h d"

definition run :: "PdfLib \<Rightarrow> stmt list \<Rightarrow> Doc \<Rightarrow> Doc" where
  "run lib stmts d = foldl (\<lambda>s st. exec lib st s) d stmts"

text \<open>
  \<open>String.prototype.toUpperCase\<close> on the alphabet of \<^typ>\<open>string\<close>: the letters \<open>a\<close> to
  \<open>z\<close> and the accented letters 224 to 254 (247, the division sign, apart) move down by
  32, and the sharp s (223) becomes \<open>SS\<close>. The upper-case forms of the micro sign (181)
  and of y with diaeresis (255) are code units above 255, outside this alphabet; these
  two characters are left as they are here, unlike in the host. Upper-cased text is
  printed only.
\<close>

definition toUpperChar :: "char \<Rightarrow> string" where
  "toUpperChar c =
     (case map_of (zip ''abcdefghijklmnopqrstuvwxyz'' ''ABCDEFGHIJKLMNOPQRSTUVWXYZ'') c of
        Some u \<Rightarrow> [u]
      | None \<Rightarrow>
          if of_char c = (223 :: nat) then ''SS''
          else if (224 :: nat) \<le> of_char c \<and> of_char c \<le> (254 :: nat) \<and> of_char c \<noteq> (247 :: nat)
          then [char_of (of_char c - (32 :: nat))]
          else [c])"

definition toUpperCase :: "string \<Rightarrow> string" where
  "toUpperCase s = concat (map toUpperChar s)"

definition intToString :: "int \<Rightarrow> string" where
  "intToString i = (if i < 0 then ''-'' @ toString (nat (- i)) else toString (nat i))"

text \<open>\<open>Math.round\<close>: the nearest integer, halves rounded up. The confidence is a real
  here and its product with 100 is exact; the host rounds the product to a double before
  \<open>Math.round\<close> reads it, which can move a product that lies next to a half across it.
  The percentage is printed only.\<close>

definition Math_round :: "real \<Rightarrow> int" where
  "Math_round x = \<lfloor>x + 1 / 2\<rfloor>"

text \<open>The three characters that start an evidence line. The source literal has the code
  units 226, 8364 and 162; the middle one lies above 255 and is written here as 128, the
  byte it stands for in the encoding the literal came from. The line is printed only.\<close>

definition bullet :: string where
  "bullet = [char_of (226 :: nat), char_of (128 :: nat), char_of (162 :: nat)]"

text \<open>Lines 28 to 87: title, generation date, verdict box, executive summary and the
  heading of the claims section. \<open>now\<close> is what \<open>new Date().toLocaleString()\<close> returns.\<close>

definition headerStmts :: "PdfLib \<Rightarrow> string \<Rightarrow> FactCheckResponse \<Rightarrow> stmt list" where
  "headerStmts lib now data' =
     (let summaryLines = splitTextToSize lib (''normal'', 11) (explainable_summary data') (contentWidth lib)
      in
       [TextAt margin 0 [''Instant Fact-Check Lens''],
        Advance 10,
        TextAt margin 0 [''Generated on '' @ now],
        Advance 15,
        RoundedRectAt margin (contentWidth lib) 35,
        TextAt (margin + 5) 10 [''Overall Verdict:''],
        TextAt (margin + 45) 10 [toUpperCase (overall_verdict data')],
        TextAt (margin + 5) 20
          [''AI Confidence: '' @ intToString (Math_round (overall_confidence data' * 100)) @ ''%''],
        TextAt (margin + 60) 20
          [''Claims Analyzed: '' @ intToString (detected_claims_count (input_summary data'))],
        Advance 45,
        TextAt margin 0 [''Executive Summary''],
        Advance 8,
        TextAt margin 0 summaryLines,
        Advance (real (length summaryLines) * 6 + 10),
        CheckPageBreak 20,
        TextAt margin 0 [''Detailed Claims Analysis''],
        Advance 10])"

text \<open>Lines 135 to 158: the body of \<open>claim.evidence.forEach\<close>.\<close>

definition evidenceStmts :: "PdfLib \<Rightarrow> Evidence \<Rightarrow> stmt list" where
  "evidenceStmts lib ev =
     (let linkText = bullet @ '' '' @ source_title ev @ '' ('' @ source_type ev @ '')'';
          linkWidth = getTextWidth lib (''normal'', 9) linkText;
          quoteLine = ''  '' @ [CHR 34] @ take 100 (quote ev)
                      @ (if length (quote ev) > 100 then ''...'' else [])
                      @ [CHR 34]
      in
       [CheckPageBreak 15,
        TextAt (margin + 8) 0 [linkText],
        LinkAt (margin + 8) (- 4) linkWidth 5 (source_url ev),
        Advance 5]
       @ (if quote ev \<noteq> [] then [TextAt (margin + 8) 0 [quoteLine], Advance 5] else []))"

text \<open>Lines 90 to 162: the body of \<open>data.claims.forEach\<close>, for the claim at index \<open>idx\<close>.\<close>

definition claimStmts :: "PdfLib \<Rightarrow> nat \<Rightarrow> Claim \<Rightarrow> stmt list" where
  "claimStmts lib idx claim =
     (let claimTitle = ''Claim '' @ toString (idx + 1) @ '': '' @ toUpperCase (verdict claim);
          claimTextLines = splitTextToSize lib (''italic'', 11)
                             ([CHR 34] @ claim_text claim @ [CHR 34]) (contentWidth lib - 5);
          reasoningLines = splitTextToSize lib (''normal'', 10) (reasoning claim) (contentWidth lib - 10)
      in
       [CheckPageBreak 50,
        LineAt margin (pageWidth lib - margin),
        Advance 5,
        TextAt margin 0 [claimTitle],
        Advance 7,
        TextAt (margin + 5) 0 claimTextLines,
        Advance (real (length claimTextLines) * 6 + 5),
        CheckPageBreak 20,
        TextAt (margin + 5) 0 [''Analysis:''],
        Advance 5,
        TextAt (margin + 5) 0 reasoningLines,
        Advance (real (length reasoningLines) * 5 + 8)]
       @ (if length (evidence claim) > 0
          then [CheckPageBreak 30,
                TextAt (margin + 5) 0 [''Evidence / Proofs:''],
                Advance 6]
               @ concat (map (evidenceStmts lib) (evidence claim))
               @ [Advance 5]
          else [])
       @ [Advance 5])"

text \<open>Line 89: \<open>data.claims.forEach\<close>, from index \<open>idx\<close> on.\<close>

fun claimsStmts :: "PdfLib \<Rightarrow> nat \<Rightarrow> Claim list \<Rightarrow> stmt list" where
  "claimsStmts lib idx [] = []"
| "claimsStmts lib idx (claim # rest) = claimStmts lib idx claim @ claimsStmts lib (idx + 1) rest"

text \<open>Lines 28 to 163: everything laid out with the cursor, before the footer pass.\<close>

definition layoutStmts :: "PdfLib \<Rightarrow> string \<Rightarrow> FactCheckResponse \<Rightarrow> stmt list" where
  "layoutStmts lib now data' = headerStmts lib now data' @ claimsStmts lib 0 (claims data')"

definition layoutContent :: "PdfLib \<Rightarrow> string \<Rightarrow> FactCheckResponse \<Rightarrow> Doc" where
  "layoutContent lib now data' = run lib (layoutStmts lib now data') newDoc"

text \<open>The footer pass visits every page; it writes at a fixed height, not at the cursor.\<close>

definition footerText :: "nat \<Rightarrow> nat \<Rightarrow> string" where
  "footerText i totalPages =
     ''Page '' @ toString i @ '' of '' @ toString totalPages
     @ '' - Generated by Instant Fact-Check Lens''"

definition writeFooters :: "PdfLib \<Rightarrow> Doc \<Rightarrow> Doc" where
  "writeFooters lib d =
     (let totalPages = numberOfPages d
      in foldl (\<lambda>s i. emit (Text i (pageWidth lib / 2) (pageHeight lib - 10) [footerText i totalPages])
                           (s\<lparr>currentPage := i\<rparr>))
           d [1..<totalPages + 1])"

text \<open>The whole function: the finished document and the name it is saved under;
  \<open>nowMs\<close> is what \<open>Date.now()\<close> returns.\<close>

definition generatePdfReport ::
  "PdfLib \<Rightarrow> string \<Rightarrow> nat \<Rightarrow> FactCheckResponse \<Rightarrow> Doc \<times> string" where
  "generatePdfReport lib now nowMs data' =
     (writeFooters lib (layoutContent lib now data'),
      ''FactCheck-Report-'' @ toString nowMs @ ''.pdf'')"

subsection \<open>Vocabulary for the layout properties\<close>

text \<open>Every drawing call so far starts at or above the bottom margin line.\<close>

definition startsWithin :: "PdfLib \<Rightarrow> Doc \<Rightarrow> bool" where
  "startsWithin lib d \<longleftrightarrow> (\<forall>x \<in> set (ops d). opY x \<le> pageHeight lib - margin)"

text \<open>Consecutive drawing calls are on the same page, or the later one opens the next
  page at the top margin.\<close>

fun pagesInOrder :: "draw list \<Rightarrow> bool" where
  "pagesInOrder [] = True"
| "pagesInOrder [x] = True"
| "pagesInOrder (x # x' # r) =
     ((opPage x' = opPage x \<or> (opPage x' = opPage x + 1 \<and> opY x' = 20)) \<and> pagesInOrder (x' # r))"

text \<open>
  What a run of statements did at each call of \<open>checkPageBreak\<close>, in call order: how many
  drawing calls had been made, the page and the cursor before the call, the height it
  was asked for, and the page and the cursor after it.
\<close>

datatype check =
  Check (chkDrawn: nat) (chkPage: nat) (chkY: real) (chkHeight: real)
        (chkPageAfter: nat) (chkYAfter: real)

fun checksOf :: "PdfLib \<Rightarrow> stmt list \<Rightarrow> Doc \<Rightarrow> check list" where
  "checksOf lib [] d = []"
| "checksOf lib (CheckPageBreak h # ss) d =
     Check (length (ops d)) (currentPage d) (yPos d) h
           (currentPage (exec lib (CheckPageBreak h) d)) (yPos (exec lib (CheckPageBreak h) d))
     # checksOf lib ss (exec lib (CheckPageBreak h) d)"
| "checksOf lib (s # ss) d = checksOf lib ss (exec lib s d)"

text \<open>The checks of lines 28 to 163.\<close>

definition layoutChecks :: "PdfLib \<Rightarrow> string \<Rightarrow> FactCheckResponse \<Rightarrow> check list" where
  "layoutChecks lib now data' = checksOf lib (layoutStmts lib now data') newDoc"

text \<open>The call decided as line 20 says: a page was started, with the cursor back at 20,
  exactly when the cursor plus the height asked for lay beyond \<open>H - M\<close>; otherwise page
  and cursor stayed.\<close>

definition decidedByHeight :: "PdfLib \<Rightarrow> check \<Rightarrow> bool" where
  "decidedByHeight lib k =
     (if chkY k + chkHeight k > pageHeight lib - margin
      then chkPageAfter k = chkPage k + 1 \<and> chkYAfter k = 20
      else chkPageAfter k = chkPage k \<and> chkYAfter k = chkY k)"

text \<open>The drawing call that followed the check is at the page and the cursor the check
  left.\<close>

definition nextDrawnAt :: "draw list \<Rightarrow> check \<Rightarrow> bool" where
  "nextDrawnAt xs k =
     (chkDrawn k < length xs \<and> opPage (xs ! chkDrawn k) = chkPageAfter k
      \<and> opY (xs ! chkDrawn k) = chkYAfter k)"

text \<open>The heights the checks of a result ask for, by the structure of the result: 20
  before the heading of the claims section; for each claim 50 before the claim, 20 before
  its analysis and, when it has evidence, 30 before the evidence heading and 15 before
  each evidence line.\<close>

definition claimHeights :: "Claim \<Rightarrow> real list" where
  "claimHeights c =
     [50, 20] @ (if length (evidence c) > 0 then 30 # replicate (length (evidence c)) 15 else [])"

definition reportHeights :: "FactCheckResponse \<Rightarrow> real list" where
  "reportHeights data' = 20 # concat (map claimHeights (claims data'))"

text \<open>The heights a sequence of statements asks for, in order.\<close>

fun heightsAsked :: "stmt list \<Rightarrow> real list" where
  "heightsAsked [] = []"
| "heightsAsked (CheckPageBreak h # ss) = h # heightsAsked ss"
| "heightsAsked (s # ss) = heightsAsked ss"

text \<open>A statement that draws at the cursor, and a sequence in which every check is
  followed by one.\<close>

fun drawsAtCursor :: "stmt \<Rightarrow> bool" where
  "drawsAtCursor (TextAt x dy ls) = (dy = 0)"
| "drawsAtCursor (LineAt x1 x2) = True"
| "drawsAtCursor (RoundedRectAt x w h) = True"
| "drawsAtCursor s = False"

fun checksThenDraws :: "stmt list \<Rightarrow> bool" where
  "checksThenDraws [] = True"
| "checksThenDraws [CheckPageBreak h] = False"
| "checksThenDraws (CheckPageBreak h # s # ss) = (drawsAtCursor s \<and> checksThenDraws ss)"
| "checksThenDraws (s # ss) = checksThenDraws ss"

text \<open>With the cursor at most \<open>b\<close> above the bottom margin line and checks called with
  heights up to \<open>cap\<close>, the offsets of the drawing calls stay within what is left.\<close>

fun offsetsWithin :: "real \<Rightarrow> real \<Rightarrow> stmt list \<Rightarrow> bool" where
  "offsetsWithin cap b [] = True"
| "offsetsWithin cap b (TextAt x dy ls # ss) = (dy \<le> b \<and> offsetsWithin cap b ss)"
| "offsetsWithin cap b (LineAt x1 x2 # ss) = (0 \<le> b \<and> offsetsWithin cap b ss)"
| "offsetsWithin cap b (RoundedRectAt x w h # ss) = (0 \<le> b \<and> offsetsWithin cap b ss)"
| "offsetsWithin cap b (LinkAt x dy w h u # ss) = (dy \<le> b \<and> offsetsWithin cap b ss)"
| "offsetsWithin cap b (Advance n # ss) = offsetsWithin cap (b - n) ss"
| "offsetsWithin cap b (CheckPageBreak h # ss) = (h \<le> cap \<and> offsetsWithin cap h ss)"

text \<open>The state between two statements: the drawing calls are in page order, the current
  page is the last page, and the last drawing call is on it.\<close>

definition atRest :: "Doc \<Rightarrow> bool" where
  "atRest d \<longleftrightarrow> pagesInOrder (ops d) \<and> currentPage d = numberOfPages d
                \<and> (ops d \<noteq> [] \<longrightarrow> opPage (last (ops d)) = currentPage d)"

text \<open>Where a drawing call landed, without what it printed.\<close>

definition placement :: "draw \<Rightarrow> nat \<times> real \<times> real" where
  "placement x = (opPage x, opX x, opY x)"

text \<open>Replacing the second drawing call, the line that prints the generation date.\<close>

definition stamp :: "draw \<Rightarrow> Doc \<Rightarrow> Doc" where
  "stamp x d = d\<lparr>ops := (ops d)[1 := x]\<rparr>"

definition layoutStmt :: "(Doc \<Rightarrow> Doc) \<Rightarrow> bool" where
  "layoutStmt f \<longleftrightarrow>
     (\<forall>x d. 2 \<le> length (ops d) \<longrightarrow> f (stamp x d) = stamp x (f d) \<and> 2 \<le> length (ops (f d)))"

text \<open>
  A concrete collaborator with the figures of the library the source imports, for an A4
  page in millimetres: the page is 595.28 by 841.89 points of 25.4 / 72 millimetres. It
  measures every character as half an em, which is the width of the letter \<open>x\<close> in
  Helvetica, and breaks a text into lines of as many characters as fit the width. On the
  texts of the sample report below, a long run of the letter \<open>x\<close> and texts of a few
  characters, these are the lines the library returns; the collaborator is used for the
  sample report only.
\<close>

definition wrapChars :: "nat \<Rightarrow> string \<Rightarrow> string list" where
  "wrapChars n t = map (\<lambda>k. take n (drop (n * k) t)) [0..<max 1 ((length t + n - 1) div n)]"

definition charWidth :: "font \<Rightarrow> real" where
  "charWidth f = 1 / 2 * real (snd f) * (254 / 10) / 72"

definition a4Lib :: PdfLib where
  "a4Lib = \<lparr>pageWidth = 59528 / 100 * (254 / 10) / 72, pageHeight = 84189 / 100 * (254 / 10) / 72,
            splitTextToSize = (\<lambda>f t w. wrapChars (nat \<lfloor>w / charWidth f\<rfloor>) t),
            getTextWidth = (\<lambda>f t. real (length t) * charWidth f)\<rparr>"

text \<open>A result whose summary is 2750 characters long (32 lines of 87 characters at 11
  points), with one claim that has one piece of evidence.\<close>

definition longSummary :: string where
  "longSummary = replicate 2750 (CHR ''x'')"

definition sampleEvidence :: Evidence where
  "sampleEvidence =
     \<lparr>source_title = ''x'', source_url = ''https://example.org/x'', source_type = ''news'',
      quote = ''xx'', extracted_text = None, confidence_in_source = 1, retrieved_at = []\<rparr>"

definition sampleClaim :: Claim where
  "sampleClaim =
     \<lparr>claim_id = ''c1'', claim_text = ''xxx'', claim_type = ''factual'', entities = [],
      evidence = [sampleEvidence], verdict = ''true'', verdict_confidence = 1,
      reasoning = ''xxxx'', suggested_search_queries = [], provenance = []\<rparr>"

definition longSummaryReport :: FactCheckResponse where
  "longSummaryReport =
     \<lparr>input_summary = \<lparr>input_type = ''text'', raw_input_excerpt = ''x'', detected_claims_count = 1\<rparr>,
      claims = [sampleClaim], overall_verdict = ''true'', overall_confidence = 1,
      explainable_summary = longSummary, suggested_actions = [], safety_warnings = [],
      meta = \<lparr>search_queries = [], timestamp_utc = [], model = [], meta_notes = None,
               vision_note = None\<rparr>\<rparr>"

definition longSummaryDoc :: Doc where
  "longSummaryDoc = layoutContent a4Lib ''1/1/2026, 12:00:00 PM'' longSummaryReport"

section \<open>Properties of the PDF text extraction\<close>

lemma toString_10: "toString 10 = ''10''"
  by (simp add: toString.simps digit_char_def)

lemma trim_nonempty: "\<not> isWhiteSpace c \<Longrightarrow> trim (c # s) \<noteq> []"
proof -
  assume c: "\<not> isWhiteSpace c"
  have "dropWhile isWhiteSpace (rev s @ [c]) \<noteq> []"
    using c by (simp add: dropWhile_append3)
  with c show ?thesis by (simp add: trim_def)
qed

lemma pageLoop_readable:
  "1 \<le> i \<Longrightarrow> maxPages \<le> length pages \<Longrightarrow>
   (\<forall>k. i \<le> k \<and> k \<le> maxPages \<longrightarrow> (\<exists>t. pages ! (k - 1) = PageText t)) \<Longrightarrow>
   pageLoop pages maxPages i acc = Inr (acc @ concat (map (pageLine pages) [i..<Suc maxPages]))"
proof (induction pages maxPages i acc rule: pageLoop.induct)
  case (1 pages maxPages i fullText)
  show ?case
  proof (cases "i \<le> maxPages")
    case False
    then show ?thesis by (simp add: pageLoop.simps [of pages maxPages i])
  next
    case True
    from True "1.prems" obtain t where t: "pages ! (i - 1) = PageText t" by blast
    have g: "getPage pages i = Inr t"
      using True "1.prems" t by (simp add: getPage_def)
    have ih: "pageLoop pages maxPages (i + 1) (fullText @ ''[Page '' @ toString i @ ''] '' @ join '' '' t @ [CHR 10])
        = Inr ((fullText @ ''[Page '' @ toString i @ ''] '' @ join '' '' t @ [CHR 10]) @ concat (map (pageLine pages) [i + 1..<Suc maxPages]))"
      using "1.IH" [OF True g] "1.prems" by (simp del: upt_Suc)
    have up: "[i..<Suc maxPages] = i # [i + 1..<Suc maxPages]"
      using True by (simp add: upt_conv_Cons)
    have pl: "pageLine pages i = ''[Page '' @ toString i @ ''] '' @ join '' '' t @ [CHR 10]"
      using t by (simp add: pageLine_def)
    show ?thesis
      using True g ih by (simp add: pageLoop.simps [of pages maxPages i] up pl del: upt_Suc)
  qed
qed

text \<open>
  Claim C5. A document with more than ten pages, whose first ten pages can be read, yields
  the text of pages 1 to 10 in ascending order, each behind its \<open>[Page N]\<close> marker and
  closed by a line feed, followed by the truncation notice. The result mentions no page
  after the tenth.
\<close>

theorem extractTextFromPdf_first_ten_pages:
  assumes len: "length pages > 10"
      and rd: "\<forall>p \<in> set (take 10 pages). \<exists>t. p = PageText t"
  shows "extractTextFromPdf (Loaded pages) =
           Inr (concat (map (\<lambda>k. ''[Page '' @ toString (k + 1) @ ''] '' @ join '' '' (pageItems (pages ! k)) @ [CHR 10]) [0..<10])
                @ [CHR 10] @ ''[...Truncated. Analysis limited to first 10 pages...]'')"
proof -
  have rd': "\<forall>k. 1 \<le> k \<and> k \<le> 10 \<longrightarrow> (\<exists>t. pages ! (k - 1) = PageText t)"
  proof (intro allI impI)
    fix k :: nat assume k: "1 \<le> k \<and> k \<le> 10"
    then have "k - 1 < length (take 10 pages)" using len by auto
    then have "take 10 pages ! (k - 1) \<in> set (take 10 pages)" by (rule nth_mem)
    moreover have "take 10 pages ! (k - 1) = pages ! (k - 1)" using k by auto
    ultimately show "\<exists>t. pages ! (k - 1) = PageText t" using rd by auto
  qed
  let ?F = "concat (map (pageLine pages) [1..<Suc 10])"
  have lp: "pageLoop pages 10 1 [] = Inr ([] @ ?F)"
    by (rule pageLoop_readable) (use len rd' in auto)
  have sh: "map (pageLine pages) [1..<Suc 10] =
        map (\<lambda>k. ''[Page '' @ toString (k + 1) @ ''] '' @ join '' '' (pageItems (pages ! k)) @ [CHR 10]) [0..<10]"
    by (simp add: pageLine_def upt_rec [of _ "numeral _"] upt_rec [of _ "Suc _"] del: upt_Suc)
  have mn: "min (length pages) 10 = 10" using len by simp
  have up1: "[1..<Suc 10] = 1 # [Suc 1..<Suc 10]"
    by (rule upt_conv_Cons) simp
  define rest where "rest = tl (pageLine pages 1) @ concat (map (pageLine pages) [Suc 1..<Suc 10])"
  have rest: "?F = CHR ''['' # rest"
    by (subst up1) (simp add: pageLine_def rest_def del: upt_Suc)
  have "trim (CHR ''['' # (rest @ truncationNotice 10)) \<noteq> []"
    by (rule trim_nonempty) (simp add: isWhiteSpace_def)
  then have tr: "trim (?F @ truncationNotice 10) \<noteq> []"
    unfolding rest append_Cons .
  have body: "extractBody pages = Inr (?F @ truncationNotice 10)"
    unfolding extractBody_def Let_def mn using len lp tr by (simp del: upt_Suc)
  have nt: "truncationNotice 10 = [CHR 10] @ ''[...Truncated. Analysis limited to first 10 pages...]''"
    by (simp add: truncationNotice_def toString_10)
  have "extractTextFromPdf (Loaded pages) = Inr (?F @ truncationNotice 10)"
    by (simp only: extractTextFromPdf_def body pdf_file.case sum.case)
  then show ?thesis
    by (simp only: sh nt)
qed

theorem extractTextFromPdf_first_ten_pages_witness:
  "10 < length (map (\<lambda>t. PageText [t]) [''a'', ''b'', ''c'', ''d'', ''e'', ''f'', ''g'', ''h'', ''i'', ''j'', ''k'']) \<and>
   extractTextFromPdf (Loaded (map (\<lambda>t. PageText [t]) [''a'', ''b'', ''c'', ''d'', ''e'', ''f'', ''g'', ''h'', ''i'', ''j'', ''k''])) =
     Inr (''[Page 1] a'' @ [CHR 10] @ ''[Page 2] b'' @ [CHR 10] @ ''[Page 3] c'' @ [CHR 10] @
          ''[Page 4] d'' @ [CHR 10] @ ''[Page 5] e'' @ [CHR 10] @ ''[Page 6] f'' @ [CHR 10] @
          ''[Page 7] g'' @ [CHR 10] @ ''[Page 8] h'' @ [CHR 10] @ ''[Page 9] i'' @ [CHR 10] @
          ''[Page 10] j'' @ [CHR 10] @ [CHR 10] @ ''[...Truncated. Analysis limited to first 10 pages...]'')"
  using extractTextFromPdf_first_ten_pages
    [of "map (\<lambda>t. PageText [t]) [''a'', ''b'', ''c'', ''d'', ''e'', ''f'', ''g'', ''h'', ''i'', ''j'', ''k'']"]
  by (simp add: toString.simps digit_char_def upt_rec [of _ "numeral _"] del: upt_Suc)

text \<open>
  Every page contributes its marker to \<open>fullText\<close>, whatever its text. So a document with
  at least one page, read without a rejection, never reaches the error for empty content.
\<close>

lemma extractTextFromPdf_check_never_fires:
  assumes ne: "pages \<noteq> []"
      and rd: "\<forall>p \<in> set (take 10 pages). \<exists>t. p = PageText t"
  shows "\<exists>t. extractTextFromPdf (Loaded pages) = Inr t"
proof -
  define m where "m = min (length pages) 10"
  have m1: "1 \<le> m" and mlen: "m \<le> length pages" and m10: "m \<le> 10"
    using ne by (cases pages; simp add: m_def)+
  have rd': "\<forall>k. 1 \<le> k \<and> k \<le> m \<longrightarrow> (\<exists>t. pages ! (k - 1) = PageText t)"
  proof (intro allI impI)
    fix k :: nat assume k: "1 \<le> k \<and> k \<le> m"
    then have "k - 1 < length (take 10 pages)" using mlen m10 by auto
    then have "take 10 pages ! (k - 1) \<in> set (take 10 pages)" by (rule nth_mem)
    moreover have "take 10 pages ! (k - 1) = pages ! (k - 1)" using k m10 by auto
    ultimately show "\<exists>t. pages ! (k - 1) = PageText t" using rd by auto
  qed
  let ?F = "concat (map (pageLine pages) [1..<Suc m])"
  have lp: "pageLoop pages m 1 [] = Inr ([] @ ?F)"
    by (rule pageLoop_readable) (use mlen rd' in auto)
  have up1: "[1..<Suc m] = 1 # [Suc 1..<Suc m]"
    by (rule upt_conv_Cons) (use m1 in simp)
  define rest where "rest = tl (pageLine pages 1) @ concat (map (pageLine pages) [Suc 1..<Suc m])"
  have rest: "?F = CHR ''['' # rest"
    by (subst up1) (simp add: pageLine_def rest_def del: upt_Suc)
  have t1: "trim ?F \<noteq> []"
    unfolding rest by (rule trim_nonempty) (simp add: isWhiteSpace_def)
  have t2: "trim (?F @ truncationNotice m) \<noteq> []"
    unfolding rest append_Cons by (rule trim_nonempty) (simp add: isWhiteSpace_def)
  have "\<exists>t. extractBody pages = Inr t"
    unfolding extractBody_def Let_def m_def [symmetric]
    using lp t1 t2 by (simp del: upt_Suc)
  then show ?thesis
    by (auto simp: extractTextFromPdf_def)
qed

text \<open>
  Claim C4. The emptiness test runs on \<open>fullText\<close> after the page markers have been
  appended, so a one-page document whose page has no text item (an image-only scan) is
  returned as a success holding nothing but the marker: the test does not fire.
\<close>

theorem extractTextFromPdf_image_only_scan:
  "extractTextFromPdf (Loaded [PageText []]) = Inr (''[Page 1] '' @ [CHR 10])"
  by (simp add: extractTextFromPdf_def extractBody_def pageLoop.simps getPage_def
      toString.simps digit_char_def trim_def isWhiteSpace_def)

section \<open>Properties of the report layout\<close>

lemma run_Nil: "run lib [] d = d"
  by (simp add: run_def)

lemma run_Cons: "run lib (s # ss) d = run lib ss (exec lib s d)"
  by (simp add: run_def)

lemma run_append: "run lib (ss @ ts) d = run lib ts (run lib ss d)"
  by (simp add: run_def)

subsection \<open>Blocks start above the bottom margin line\<close>

lemma sw_emit: "startsWithin lib d \<Longrightarrow> opY x \<le> pageHeight lib - margin \<Longrightarrow> startsWithin lib (emit x d)"
  by (simp add: startsWithin_def emit_def)

lemma sw_text_at:
  "startsWithin lib d \<Longrightarrow> yPos d + dy \<le> pageHeight lib - margin \<Longrightarrow> startsWithin lib (text_at x dy ls d)"
  by (simp add: text_at_def sw_emit)

lemma sw_line_at:
  "startsWithin lib d \<Longrightarrow> yPos d \<le> pageHeight lib - margin \<Longrightarrow> startsWithin lib (line_at x1 x2 d)"
  by (simp add: line_at_def sw_emit)

lemma sw_roundedRect_at:
  "startsWithin lib d \<Longrightarrow> yPos d \<le> pageHeight lib - margin \<Longrightarrow> startsWithin lib (roundedRect_at x w h d)"
  by (simp add: roundedRect_at_def sw_emit)

lemma sw_link_at:
  "startsWithin lib d \<Longrightarrow> yPos d + dy \<le> pageHeight lib - margin \<Longrightarrow> startsWithin lib (link_at x dy w h u d)"
  by (simp add: link_at_def sw_emit)

lemma sw_advance: "startsWithin lib (advance n d) = startsWithin lib d"
  by (simp add: startsWithin_def advance_def)

lemma sw_checkPageBreak: "startsWithin lib (checkPageBreak lib h d) = startsWithin lib d"
  by (simp add: startsWithin_def checkPageBreak_def addPage_def)

lemma yPos_text_at: "yPos (text_at x dy ls d) = yPos d"
  by (simp add: text_at_def emit_def)

lemma yPos_line_at: "yPos (line_at x1 x2 d) = yPos d"
  by (simp add: line_at_def emit_def)

lemma yPos_roundedRect_at: "yPos (roundedRect_at x w h d) = yPos d"
  by (simp add: roundedRect_at_def emit_def)

lemma yPos_link_at: "yPos (link_at x dy w h u d) = yPos d"
  by (simp add: link_at_def emit_def)

lemma yPos_advance: "yPos (advance n d) = yPos d + n"
  by (simp add: advance_def)

lemma yPos_checkPageBreak:
  "20 + h \<le> pageHeight lib - margin \<Longrightarrow> yPos (checkPageBreak lib h d) + h \<le> pageHeight lib - margin"
  by (simp add: checkPageBreak_def addPage_def)

lemma sw_run:
  "offsetsWithin cap b ss \<Longrightarrow> cap + 20 \<le> pageHeight lib - margin
   \<Longrightarrow> yPos d + b \<le> pageHeight lib - margin \<Longrightarrow> startsWithin lib d
   \<Longrightarrow> startsWithin lib (run lib ss d)"
proof (induction cap b ss arbitrary: d rule: offsetsWithin.induct)
  case (1 cap b)
  then show ?case by (simp add: run_Nil)
next
  case (2 cap b x dy ls ss)
  from 2 have "startsWithin lib (text_at x dy ls d)"
    by (intro sw_text_at) simp_all
  with 2 show ?case by (simp add: run_Cons yPos_text_at)
next
  case (3 cap b x1 x2 ss)
  from 3 have "startsWithin lib (line_at x1 x2 d)"
    by (intro sw_line_at) simp_all
  with 3 show ?case by (simp add: run_Cons yPos_line_at)
next
  case (4 cap b x w h ss)
  from 4 have "startsWithin lib (roundedRect_at x w h d)"
    by (intro sw_roundedRect_at) simp_all
  with 4 show ?case by (simp add: run_Cons yPos_roundedRect_at)
next
  case (5 cap b x dy w h u ss)
  from 5 have "startsWithin lib (link_at x dy w h u d)"
    by (intro sw_link_at) simp_all
  with 5 show ?case by (simp add: run_Cons yPos_link_at)
next
  case (6 cap b n ss)
  then show ?case by (simp add: run_Cons yPos_advance sw_advance)
next
  case (7 cap b h ss)
  from 7 have "20 + h \<le> pageHeight lib - margin" by simp
  then have "yPos (checkPageBreak lib h d) + h \<le> pageHeight lib - margin"
    by (rule yPos_checkPageBreak)
  with 7 show ?case by (simp add: run_Cons sw_checkPageBreak)
qed

lemma ow_append:
  "offsetsWithin cap b ss \<Longrightarrow> (\<And>b'. offsetsWithin cap b' ts) \<Longrightarrow> offsetsWithin cap b (ss @ ts)"
  by (induction cap b ss rule: offsetsWithin.induct) simp_all

lemma ow_evidenceStmts: "15 \<le> cap \<Longrightarrow> offsetsWithin cap b (evidenceStmts lib ev)"
  by (simp add: evidenceStmts_def Let_def)

lemma ow_evidences: "15 \<le> cap \<Longrightarrow> offsetsWithin cap b (concat (map (evidenceStmts lib) evs))"
  by (induction evs arbitrary: b) (simp_all add: ow_append ow_evidenceStmts)

lemma ow_claimStmts:
  assumes "50 \<le> cap"
  shows "offsetsWithin cap b (claimStmts lib idx claim)"
proof -
  have e: "offsetsWithin cap b' (concat (map (evidenceStmts lib) (evidence claim)) @ [Advance 5, Advance 5])" for b'
    by (rule ow_append) (use assms in \<open>simp_all add: ow_evidences\<close>)
  show ?thesis
    using assms e by (simp add: claimStmts_def Let_def)
qed

lemma ow_claimsStmts: "50 \<le> cap \<Longrightarrow> offsetsWithin cap b (claimsStmts lib idx cs)"
  by (induction cs arbitrary: b idx) (simp_all add: ow_append ow_claimStmts)

lemma ow_headerStmts: "20 \<le> cap \<Longrightarrow> 78 \<le> b \<Longrightarrow> offsetsWithin cap b (headerStmts lib now data')"
  by (simp add: headerStmts_def Let_def)

lemma layoutContent_starts_within:
  assumes "118 \<le> pageHeight lib"
  shows "startsWithin lib (layoutContent lib now data')"
proof -
  have o: "offsetsWithin 50 78 (layoutStmts lib now data')"
    unfolding layoutStmts_def by (rule ow_append) (simp_all add: ow_headerStmts ow_claimsStmts)
  have c: "50 + 20 \<le> pageHeight lib - margin" and y: "yPos newDoc + 78 \<le> pageHeight lib - margin"
    using assms by (simp_all add: margin_def newDoc_def)
  have n: "startsWithin lib newDoc"
    by (simp add: startsWithin_def newDoc_def)
  show ?thesis
    unfolding layoutContent_def by (rule sw_run [OF o c y n])
qed

subsection \<open>Pages are opened in order, at the top margin\<close>

lemma pagesInOrder_snoc:
  "pagesInOrder (xs @ [z]) \<longleftrightarrow>
     pagesInOrder xs \<and>
     (xs = [] \<or> opPage z = opPage (last xs) \<or> (opPage z = opPage (last xs) + 1 \<and> opY z = 20))"
  by (induction xs rule: pagesInOrder.induct) auto

lemma atRest_emit: "atRest d \<Longrightarrow> opPage z = currentPage d \<Longrightarrow> atRest (emit z d)"
  by (auto simp: atRest_def emit_def pagesInOrder_snoc)

lemma atRest_advance: "atRest (advance n d) = atRest d"
  by (simp add: atRest_def advance_def)

lemma atRest_exec:
  "atRest d \<Longrightarrow> (\<And>h. s \<noteq> CheckPageBreak h) \<Longrightarrow> atRest (exec lib s d)"
  by (cases s)
     (auto simp: text_at_def line_at_def roundedRect_at_def link_at_def atRest_emit atRest_advance)

lemma atRest_checked_draw:
  assumes "atRest d" "drawsAtCursor s"
  shows "atRest (exec lib s (checkPageBreak lib h d))"
proof (cases "yPos d + h > pageHeight lib - margin")
  case False
  then have "checkPageBreak lib h d = d" by (simp add: checkPageBreak_def)
  moreover have "\<And>h. s \<noteq> CheckPageBreak h" using assms(2) by auto
  ultimately show ?thesis using assms(1) by (simp add: atRest_exec)
next
  case True
  then have c: "checkPageBreak lib h d = (addPage d)\<lparr>yPos := 20\<rparr>" by (simp add: checkPageBreak_def)
  show ?thesis
    using assms unfolding c
    by (cases s)
       (auto simp: atRest_def addPage_def text_at_def line_at_def roundedRect_at_def emit_def
          pagesInOrder_snoc)
qed

lemma atRest_run: "checksThenDraws ss \<Longrightarrow> atRest d \<Longrightarrow> atRest (run lib ss d)"
proof (induction ss arbitrary: d rule: checksThenDraws.induct)
  case 1
  then show ?case by (simp add: run_Nil)
next
  case (2 h)
  then show ?case by simp
next
  case (3 h s ss)
  then have "atRest (exec lib s (checkPageBreak lib h d))"
    by (intro atRest_checked_draw) simp_all
  with 3 show ?case by (simp add: run_Cons)
qed (simp_all add: run_Cons atRest_exec del: exec.simps)

lemma ctd_append: "checksThenDraws ss \<Longrightarrow> checksThenDraws ts \<Longrightarrow> checksThenDraws (ss @ ts)"
  by (induction ss rule: checksThenDraws.induct) simp_all

lemma ctd_evidenceStmts: "checksThenDraws (evidenceStmts lib ev)"
  by (simp add: evidenceStmts_def Let_def)

lemma ctd_evidences: "checksThenDraws (concat (map (evidenceStmts lib) evs))"
  by (induction evs) (simp_all add: ctd_append ctd_evidenceStmts)

lemma ctd_claimStmts: "checksThenDraws (claimStmts lib idx claim)"
proof -
  have "checksThenDraws (concat (map (evidenceStmts lib) (evidence claim)) @ [Advance 5, Advance 5])"
    by (rule ctd_append) (simp_all add: ctd_evidences)
  then show ?thesis
    by (simp add: claimStmts_def Let_def)
qed

lemma ctd_claimsStmts: "checksThenDraws (claimsStmts lib idx cs)"
  by (induction cs arbitrary: idx) (simp_all add: ctd_append ctd_claimStmts)

lemma ctd_headerStmts: "checksThenDraws (headerStmts lib now data')"
  by (simp add: headerStmts_def Let_def)

lemma ctd_layoutStmts: "checksThenDraws (layoutStmts lib now data')"
  unfolding layoutStmts_def by (intro ctd_append ctd_headerStmts ctd_claimsStmts)

lemma atRest_newDoc: "atRest newDoc"
  by (simp add: atRest_def newDoc_def)

lemma layoutContent_pagesInOrder:
  "pagesInOrder (ops (layoutContent lib now data'))"
proof -
  have "atRest (layoutContent lib now data')"
    unfolding layoutContent_def by (intro atRest_run ctd_layoutStmts atRest_newDoc)
  then show ?thesis by (simp add: atRest_def)
qed

subsection \<open>The checks made\<close>

lemma heightsAsked_append: "heightsAsked (ss @ ts) = heightsAsked ss @ heightsAsked ts"
  by (induction ss rule: heightsAsked.induct) simp_all

lemma heights_checksOf: "map chkHeight (checksOf lib ss d) = heightsAsked ss"
  by (induction lib ss d rule: checksOf.induct) simp_all

lemma heightsAsked_evidences:
  "heightsAsked (concat (map (evidenceStmts lib) evs)) = replicate (length evs) 15"
  by (induction evs) (simp_all add: heightsAsked_append evidenceStmts_def Let_def)

lemma heightsAsked_claimStmts: "heightsAsked (claimStmts lib idx claim) = claimHeights claim"
  by (simp add: claimStmts_def Let_def claimHeights_def heightsAsked_append heightsAsked_evidences)

lemma heightsAsked_claimsStmts:
  "heightsAsked (claimsStmts lib idx cs) = concat (map claimHeights cs)"
  by (induction cs arbitrary: idx) (simp_all add: heightsAsked_append heightsAsked_claimStmts)

lemma heightsAsked_layoutStmts: "heightsAsked (layoutStmts lib now data') = reportHeights data'"
  by (simp add: layoutStmts_def heightsAsked_append heightsAsked_claimsStmts reportHeights_def
      headerStmts_def Let_def)

lemma lastPage_exec:
  "currentPage d = numberOfPages d \<Longrightarrow> currentPage (exec lib s d) = numberOfPages (exec lib s d)"
  by (cases s)
     (simp_all add: text_at_def line_at_def roundedRect_at_def link_at_def emit_def advance_def
        checkPageBreak_def addPage_def)

lemma decided_checkPageBreak:
  "currentPage d = numberOfPages d \<Longrightarrow>
   decidedByHeight lib (Check n (currentPage d) (yPos d) h
      (currentPage (checkPageBreak lib h d)) (yPos (checkPageBreak lib h d)))"
  by (simp add: decidedByHeight_def checkPageBreak_def addPage_def)

lemma decided_checksOf:
  "currentPage d = numberOfPages d \<Longrightarrow> k \<in> set (checksOf lib ss d) \<Longrightarrow> decidedByHeight lib k"
proof (induction lib ss d rule: checksOf.induct)
  case (1 lib d)
  then show ?case by simp
next
  case (2 lib h ss d)
  have l: "currentPage (exec lib (CheckPageBreak h) d) = numberOfPages (exec lib (CheckPageBreak h) d)"
    using 2(2) by (rule lastPage_exec)
  from 2(3) consider
      "k = Check (length (ops d)) (currentPage d) (yPos d) h
             (currentPage (checkPageBreak lib h d)) (yPos (checkPageBreak lib h d))"
    | "k \<in> set (checksOf lib ss (exec lib (CheckPageBreak h) d))"
    by auto
  then show ?case
  proof cases
    case 1
    then show ?thesis using decided_checkPageBreak [OF 2(2)] by simp
  next
    case 2
    then show ?thesis using "2.IH" l by simp
  qed
qed (simp_all add: lastPage_exec del: exec.simps)

lemma ops_exec: "\<exists>zs. ops (exec lib s d) = ops d @ zs"
  by (cases s)
     (simp_all add: text_at_def line_at_def roundedRect_at_def link_at_def emit_def advance_def
        checkPageBreak_def addPage_def)

lemma ops_run: "\<exists>zs. ops (run lib ss d) = ops d @ zs"
proof (induction ss arbitrary: d)
  case Nil
  show ?case by (simp add: run_Nil)
next
  case (Cons s ss)
  obtain zs where zs: "ops (exec lib s d) = ops d @ zs" using ops_exec by blast
  obtain zs' where "ops (run lib ss (exec lib s d)) = ops (exec lib s d) @ zs'"
    using Cons.IH by blast
  then show ?case by (simp add: run_Cons zs)
qed

lemma checked_draw:
  assumes "drawsAtCursor s"
  shows "\<exists>z. ops (exec lib s d) = ops d @ [z] \<and> opPage z = currentPage d \<and> opY z = yPos d"
  using assms
  by (cases s) (simp_all add: text_at_def line_at_def roundedRect_at_def emit_def)

lemma checksOf_draw: "drawsAtCursor s \<Longrightarrow> checksOf lib (s # ss) d = checksOf lib ss (exec lib s d)"
  by (cases s) simp_all

lemma ops_checkPageBreak: "ops (checkPageBreak lib h d) = ops d"
  by (simp add: checkPageBreak_def addPage_def)

lemma nextDrawn_checksOf:
  "checksThenDraws ss \<Longrightarrow> k \<in> set (checksOf lib ss d) \<Longrightarrow> nextDrawnAt (ops (run lib ss d)) k"
proof (induction ss arbitrary: d rule: checksThenDraws.induct)
  case 1
  then show ?case by simp
next
  case (2 h)
  then show ?case by simp
next
  case (3 h s ss)
  define d1 where "d1 = checkPageBreak lib h d"
  have s: "drawsAtCursor s" and r: "checksThenDraws ss" using 3(2) by simp_all
  obtain z where z: "ops (exec lib s d1) = ops d1 @ [z]" "opPage z = currentPage d1" "opY z = yPos d1"
    using checked_draw [OF s] by blast
  obtain zs where zs: "ops (run lib ss (exec lib s d1)) = ops (exec lib s d1) @ zs"
    using ops_run by blast
  have o: "ops d1 = ops d"
    by (simp add: d1_def ops_checkPageBreak)
  have f: "ops (run lib (CheckPageBreak h # s # ss) d) = ops d @ z # zs"
    by (simp add: run_Cons d1_def [symmetric] zs z o)
  have c: "checksOf lib (CheckPageBreak h # s # ss) d
           = Check (length (ops d)) (currentPage d) (yPos d) h (currentPage d1) (yPos d1)
             # checksOf lib ss (exec lib s d1)"
    by (simp add: d1_def checksOf_draw [OF s])
  from 3(3) consider
      "k = Check (length (ops d)) (currentPage d) (yPos d) h (currentPage d1) (yPos d1)"
    | "k \<in> set (checksOf lib ss (exec lib s d1))"
    unfolding c by auto
  then show ?case
  proof cases
    case 1
    then show ?thesis by (simp add: nextDrawnAt_def f z)
  next
    case 2
    have "nextDrawnAt (ops (run lib ss (exec lib s d1))) k"
      using "3.IH" [OF r 2] .
    then show ?thesis by (simp add: run_Cons d1_def)
  qed
qed (simp_all add: run_Cons)

subsection \<open>The clock reaches the printed text only\<close>

lemma ls_text_at: "layoutStmt (text_at x dy ls)"
  by (simp add: layoutStmt_def text_at_def emit_def stamp_def list_update_append)

lemma ls_line_at: "layoutStmt (line_at x1 x2)"
  by (simp add: layoutStmt_def line_at_def emit_def stamp_def list_update_append)

lemma ls_roundedRect_at: "layoutStmt (roundedRect_at x w h)"
  by (simp add: layoutStmt_def roundedRect_at_def emit_def stamp_def list_update_append)

lemma ls_link_at: "layoutStmt (link_at x dy w h u)"
  by (simp add: layoutStmt_def link_at_def emit_def stamp_def list_update_append)

lemma ls_advance: "layoutStmt (advance n)"
  by (simp add: layoutStmt_def advance_def stamp_def)

lemma ls_checkPageBreak: "layoutStmt (checkPageBreak lib h)"
  by (simp add: layoutStmt_def checkPageBreak_def addPage_def stamp_def)

lemma ls_exec: "layoutStmt (exec lib s)"
proof (cases s)
  case (TextAt x dy ls)
  have "exec lib (TextAt x dy ls) = text_at x dy ls" by (rule ext) simp
  then show ?thesis by (simp only: TextAt ls_text_at)
next
  case (LineAt x1 x2)
  have "exec lib (LineAt x1 x2) = line_at x1 x2" by (rule ext) simp
  then show ?thesis by (simp only: LineAt ls_line_at)
next
  case (RoundedRectAt x w h)
  have "exec lib (RoundedRectAt x w h) = roundedRect_at x w h" by (rule ext) simp
  then show ?thesis by (simp only: RoundedRectAt ls_roundedRect_at)
next
  case (LinkAt x dy w h u)
  have "exec lib (LinkAt x dy w h u) = link_at x dy w h u" by (rule ext) simp
  then show ?thesis by (simp only: LinkAt ls_link_at)
next
  case (Advance n)
  have "exec lib (Advance n) = advance n" by (rule ext) simp
  then show ?thesis by (simp only: Advance ls_advance)
next
  case (CheckPageBreak h)
  have "exec lib (CheckPageBreak h) = checkPageBreak lib h" by (rule ext) simp
  then show ?thesis by (simp only: CheckPageBreak ls_checkPageBreak)
qed

lemma ls_run: "layoutStmt (run lib ss)"
proof (induction ss)
  case Nil
  show ?case by (simp add: layoutStmt_def run_Nil)
next
  case (Cons s ss)
  have f: "layoutStmt (exec lib s)" by (rule ls_exec)
  show ?case
    unfolding layoutStmt_def run_Cons
    using f Cons.IH by (simp add: layoutStmt_def)
qed

lemma ls_writeFooters: "layoutStmt (writeFooters lib)"
proof -
  have step: "layoutStmt (\<lambda>s. emit z (s\<lparr>currentPage := i\<rparr>))" for z i
    by (simp add: layoutStmt_def emit_def stamp_def list_update_append)
  have fold: "layoutStmt (\<lambda>d. foldl (\<lambda>s i. emit (g i) (s\<lparr>currentPage := i\<rparr>)) d is)" for g "is"
  proof (induction "is")
    case Nil
    show ?case by (simp add: layoutStmt_def)
  next
    case (Cons i "is")
    show ?case using Cons.IH step [of "g i" i] by (simp add: layoutStmt_def)
  qed
  have n: "numberOfPages (stamp x d) = numberOfPages d" for x d
    by (simp add: stamp_def)
  show ?thesis
    unfolding layoutStmt_def writeFooters_def Let_def n
    using fold by (simp add: layoutStmt_def)
qed

lemma header_stamp:
  "run lib (headerStmts lib now1 data') newDoc =
     stamp (Text 1 margin 30 [''Generated on '' @ now1]) (run lib (headerStmts lib now2 data') newDoc)"
  by (simp add: headerStmts_def Let_def run_def text_at_def roundedRect_at_def emit_def advance_def
      checkPageBreak_def addPage_def stamp_def newDoc_def)

lemma header_length: "2 \<le> length (ops (run lib (headerStmts lib now data') newDoc))"
  by (simp add: headerStmts_def Let_def run_def text_at_def roundedRect_at_def emit_def advance_def
      checkPageBreak_def addPage_def newDoc_def)

lemma placement_stamp:
  "placement x = placement (ops d ! 1) \<Longrightarrow> map placement (ops (stamp x d)) = map placement (ops d)"
proof (cases "1 < length (ops d)")
  case True
  assume "placement x = placement (ops d ! 1)"
  then have "(map placement (ops d))[1 := placement x] = (map placement (ops d))[1 := map placement (ops d) ! 1]"
    using True by simp
  then show ?thesis
    by (simp add: stamp_def map_update del: One_nat_def)
next
  case False
  then show ?thesis by (simp add: stamp_def list_update_beyond)
qed

lemma finish_layoutStmt:
  "layoutStmt (\<lambda>d. writeFooters lib (run lib (claimsStmts lib 0 (claims data')) d))"
  using ls_writeFooters [of lib] ls_run [of lib "claimsStmts lib 0 (claims data')"]
  by (simp add: layoutStmt_def)

lemma generatePdfReport_timestamp_only_text:
  "fst (generatePdfReport lib now1 ms1 data') =
     stamp (Text 1 margin 30 [''Generated on '' @ now1]) (fst (generatePdfReport lib now2 ms2 data'))"
proof -
  let ?x = "Text 1 margin 30 [''Generated on '' @ now1]"
  let ?h = "run lib (headerStmts lib now2 data') newDoc"
  have "writeFooters lib (run lib (claimsStmts lib 0 (claims data')) (stamp ?x ?h))
        = stamp ?x (writeFooters lib (run lib (claimsStmts lib 0 (claims data')) ?h))"
    using finish_layoutStmt [of lib data'] header_length [of lib now2 data'] by (simp add: layoutStmt_def)
  then show ?thesis
    by (simp add: generatePdfReport_def layoutContent_def layoutStmts_def run_append
        header_stamp [of lib now1 data' now2])
qed

lemma generatePdfReport_length:
  "2 \<le> length (ops (fst (generatePdfReport lib now ms data')))"
  using finish_layoutStmt [of lib data'] header_length [of lib now data']
  by (simp add: layoutStmt_def generatePdfReport_def layoutContent_def layoutStmts_def run_append)

subsection \<open>The sample report\<close>

lemma length_longSummary: "length longSummary = 2750"
  by (simp only: longSummary_def length_replicate)

lemma a4Lib_summary_width: "nat \<lfloor>contentWidth a4Lib / charWidth (''normal'', 11)\<rfloor> = 87"
  by (simp add: contentWidth_def a4Lib_def charWidth_def margin_def)

lemma length_wrap_longSummary: "length (wrapChars 87 longSummary) = 32"
  by (simp add: wrapChars_def length_longSummary)

lemma a4Lib_one_line:
  "splitTextToSize a4Lib (''italic'', 11) ([CHR 34] @ ''xxx'' @ [CHR 34]) (contentWidth a4Lib - 5)
     = [[CHR 34] @ ''xxx'' @ [CHR 34]]"
  "splitTextToSize a4Lib (''normal'', 10) ''xxxx'' (contentWidth a4Lib - 10) = [''xxxx'']"
  by (simp_all add: a4Lib_def contentWidth_def charWidth_def margin_def wrapChars_def)

lemma wrapChars_short: "0 < n \<Longrightarrow> length t \<le> n \<Longrightarrow> wrapChars n t = [t]"
proof -
  assume n: "0 < n" and t: "length t \<le> n"
  have "(length t + n - 1) div n \<le> 1"
  proof -
    have "length t + n - 1 < 2 * n" using n t by simp
    then have "(length t + n - 1) div n < 2"
      using n by (simp add: div_less_iff_less_mult mult.commute)
    then show ?thesis by simp
  qed
  then have "max 1 ((length t + n - 1) div n) = 1" by simp
  then show ?thesis
    using t by (simp add: wrapChars_def)
qed

lemma length_bullet: "length bullet = 3"
  by (simp add: bullet_def)

lemmas sample_eval = longSummaryDoc_def layoutContent_def layoutStmts_def longSummaryReport_def
  sampleClaim_def sampleEvidence_def headerStmts_def claimStmts_def evidenceStmts_def a4Lib_def
  charWidth_def Let_def run_def text_at_def line_at_def roundedRect_at_def link_at_def emit_def
  advance_def checkPageBreak_def addPage_def newDoc_def margin_def contentWidth_def
  toUpperCase_def toUpperChar_def intToString_def Math_round_def toString.simps digit_char_def
  wrapChars_short length_longSummary length_wrap_longSummary length_bullet

lemma longSummaryDoc_ops:
  "ops longSummaryDoc =
    [Text 1 20 20 [''Instant Fact-Check Lens''],
     Text 1 20 30 [''Generated on 1/1/2026, 12:00:00 PM''],
     RoundedRect 1 20 45 (contentWidth a4Lib) 35,
     Text 1 25 55 [''Overall Verdict:''],
     Text 1 65 55 [''TRUE''],
     Text 1 25 65 [''AI Confidence: 100%''],
     Text 1 80 65 [''Claims Analyzed: 1''],
     Text 1 20 90 [''Executive Summary''],
     Text 1 20 98 (wrapChars 87 longSummary),
     Text 2 20 20 [''Detailed Claims Analysis''],
     Line 2 20 30 (pageWidth a4Lib - 20) 30,
     Text 2 20 35 [''Claim 1: TRUE''],
     Text 2 25 42 [[CHR 34] @ ''xxx'' @ [CHR 34]],
     Text 2 25 53 [''Analysis:''],
     Text 2 25 58 [''xxxx''],
     Text 2 25 71 [''Evidence / Proofs:''],
     Text 2 28 77 [bullet @ '' x (news)''],
     Link 2 28 73 (getTextWidth a4Lib (''normal'', 9) (bullet @ '' x (news)'')) 5
       ''https://example.org/x'',
     Text 2 28 82 [''  '' @ [CHR 34] @ ''xx'' @ [CHR 34]]]"
  by (simp add: sample_eval)

lemma longSummaryReport_checks:
  "layoutChecks a4Lib ''1/1/2026, 12:00:00 PM'' longSummaryReport =
     [Check 9 1 300 20 2 20, Check 10 2 30 50 2 30, Check 13 2 53 20 2 53,
      Check 15 2 71 30 2 71, Check 16 2 77 15 2 77]"
  by (simp add: layoutChecks_def sample_eval)

subsection \<open>The claims about the report\<close>

text \<open>
  Claim C6, as the code has it. On a page at least 118 units high (A4 is 297), every
  drawing call made at the cursor (all but the footers) starts at or above the bottom
  margin line \<open>H - M\<close>; and whenever two consecutive drawing calls are on different pages,
  the later one is on the next page at the top margin 20, as the first content there.
  The function calls \<open>checkPageBreak\<close> before the heading of the claims section with the
  height 20 and, for each claim, before the claim with 50, before its analysis with 20
  and, when it has evidence, before the evidence heading with 30 and before each evidence
  line with 15, and nowhere else. Each call starts a page, with the cursor back at 20,
  exactly when the cursor plus that height lies beyond \<open>H - M\<close>, and leaves page and
  cursor as they are otherwise; the drawing call after it is made at the page and the
  cursor it left.
\<close>

theorem layoutContent_blocks_start_above_bottom_margin:
  assumes "118 \<le> pageHeight lib"
  shows "startsWithin lib (layoutContent lib now data') \<and>
         pagesInOrder (ops (layoutContent lib now data')) \<and>
         map chkHeight (layoutChecks lib now data') = reportHeights data' \<and>
         (\<forall>k \<in> set (layoutChecks lib now data').
            decidedByHeight lib k \<and> nextDrawnAt (ops (layoutContent lib now data')) k)"
proof -
  have a: "startsWithin lib (layoutContent lib now data')"
    using assms by (rule layoutContent_starts_within)
  have b: "pagesInOrder (ops (layoutContent lib now data'))"
    by (rule layoutContent_pagesInOrder)
  have c: "map chkHeight (layoutChecks lib now data') = reportHeights data'"
    by (simp add: layoutChecks_def heights_checksOf heightsAsked_layoutStmts)
  have n: "currentPage newDoc = numberOfPages newDoc"
    by (simp add: newDoc_def)
  have d: "decidedByHeight lib k" if "k \<in> set (layoutChecks lib now data')" for k
    using that unfolding layoutChecks_def by (rule decided_checksOf [OF n])
  have e: "nextDrawnAt (ops (layoutContent lib now data')) k"
    if "k \<in> set (layoutChecks lib now data')" for k
    using that unfolding layoutChecks_def layoutContent_def
    by (rule nextDrawn_checksOf [OF ctd_layoutStmts])
  show ?thesis
    using a b c d e by blast
qed

theorem layoutContent_blocks_start_above_bottom_margin_witness:
  "118 \<le> pageHeight a4Lib \<and>
   startsWithin a4Lib longSummaryDoc \<and> pagesInOrder (ops longSummaryDoc) \<and>
   layoutChecks a4Lib ''1/1/2026, 12:00:00 PM'' longSummaryReport =
     [Check 9 1 300 20 2 20, Check 10 2 30 50 2 30, Check 13 2 53 20 2 53,
      Check 15 2 71 30 2 71, Check 16 2 77 15 2 77] \<and>
   reportHeights longSummaryReport = [20, 50, 20, 30, 15] \<and>
   decidedByHeight a4Lib (Check 9 1 300 20 2 20) \<and>
   nextDrawnAt (ops longSummaryDoc) (Check 9 1 300 20 2 20) \<and>
   decidedByHeight a4Lib (Check 10 2 30 50 2 30) \<and>
   nextDrawnAt (ops longSummaryDoc) (Check 10 2 30 50 2 30) \<and>
   decidedByHeight a4Lib (Check 16 2 77 15 2 77) \<and>
   nextDrawnAt (ops longSummaryDoc) (Check 16 2 77 15 2 77)"
proof -
  have h: "118 \<le> pageHeight a4Lib" by (simp add: a4Lib_def)
  show ?thesis
    using h layoutContent_blocks_start_above_bottom_margin
              [OF h, of "''1/1/2026, 12:00:00 PM''" longSummaryReport]
    by (simp add: longSummaryReport_checks longSummaryDoc_def [symmetric])
qed

text \<open>
  The claim as stated fails: the height a check is called with is a fixed number, not the
  height of the block, and the executive summary is written with no check at all. For a
  summary that wraps to 32 lines, the summary block starts on page 1 at 98, after the
  heading drawn on the same page, and the cursor advance of 6 per line takes it to 290,
  beyond \<open>H - M\<close>; no page was started for it, and the first check is made with the
  cursor at 300.
\<close>

theorem layoutContent_summary_overflows:
  "opPage (ops longSummaryDoc ! 7) = 1 \<and>
   opPage (ops longSummaryDoc ! 8) = 1 \<and>
   opY (ops longSummaryDoc ! 8) = 98 \<and>
   length (opLines (ops longSummaryDoc ! 8)) = 32 \<and>
   opY (ops longSummaryDoc ! 8) + 6 * real (length (opLines (ops longSummaryDoc ! 8)))
     > pageHeight a4Lib - margin \<and>
   chkY (hd (layoutChecks a4Lib ''1/1/2026, 12:00:00 PM'' longSummaryReport)) = 300"
proof -
  have p: "pageHeight a4Lib - margin < 290"
    by (simp add: a4Lib_def margin_def)
  show ?thesis
    using p by (simp add: longSummaryDoc_ops longSummaryReport_checks length_wrap_longSummary)
qed

text \<open>
  Claim C7. The two readings of the clock are the only inputs of the function besides the
  result and the collaborator. Two runs on the same result with the same collaborator, at
  any two times, produce the same number of pages and the same sequence of placements
  (page, x, y) of drawing calls; the documents differ at most in the second drawing call,
  the line that prints the generation date, which lands at the same place in both.
\<close>

theorem generatePdfReport_layout_ignores_time:
  "numberOfPages (fst (generatePdfReport lib now1 ms1 data')) =
     numberOfPages (fst (generatePdfReport lib now2 ms2 data')) \<and>
   map placement (ops (fst (generatePdfReport lib now1 ms1 data'))) =
     map placement (ops (fst (generatePdfReport lib now2 ms2 data'))) \<and>
   ops (fst (generatePdfReport lib now1 ms1 data')) =
     (ops (fst (generatePdfReport lib now2 ms2 data')))[1 := Text 1 margin 30 [''Generated on '' @ now1]]"
proof -
  define D1 where "D1 = fst (generatePdfReport lib now1 ms1 data')"
  define D2 where "D2 = fst (generatePdfReport lib now2 ms2 data')"
  define x1 where "x1 = Text 1 margin 30 [''Generated on '' @ now1]"
  define x2 where "x2 = Text 1 margin 30 [''Generated on '' @ now2]"
  have e12: "D1 = stamp x1 D2"
    unfolding D1_def D2_def x1_def by (rule generatePdfReport_timestamp_only_text)
  have e22: "D2 = stamp x2 D2"
    unfolding D2_def x2_def by (rule generatePdfReport_timestamp_only_text)
  have len: "1 < length (ops D2)"
    using generatePdfReport_length [of lib now2 ms2 data'] by (simp add: D2_def)
  have "ops D2 = ops (stamp x2 D2)"
    using e22 by (rule arg_cong)
  then have "ops D2 ! 1 = (ops D2)[1 := x2] ! 1"
    by (simp add: stamp_def)
  then have "ops D2 ! 1 = x2"
    using len by simp
  then have p: "placement x1 = placement (ops D2 ! 1)"
    by (simp add: placement_def x1_def x2_def)
  have m: "map placement (ops (stamp x1 D2)) = map placement (ops D2)"
    by (rule placement_stamp [OF p])
  have "numberOfPages D1 = numberOfPages D2 \<and> map placement (ops D1) = map placement (ops D2)
        \<and> ops D1 = (ops D2)[1 := x1]"
    using m by (simp add: e12) (simp add: stamp_def)
  then show ?thesis
    unfolding D1_def D2_def x1_def .
qed

section \<open>Properties of the JSON model\<close>

lemma parse_consumes:
  "(parseValue n ts = Some (v, r) \<longrightarrow> length r < length ts) \<and>
   (parseElements n ts acc = Some (v, r) \<longrightarrow> length r < length ts) \<and>
   (parseMembers n ts acc' = Some (v, r) \<longrightarrow> length r < length ts)"
proof (induction n arbitrary: ts acc acc' v r)
  case 0
  show ?case by simp
next
  case (Suc n)
  have IHV: "\<And>ts v r. parseValue n ts = Some (v, r) \<Longrightarrow> length r < length ts"
    using Suc.IH by blast
  have IHE: "\<And>ts acc v r. parseElements n ts acc = Some (v, r) \<Longrightarrow> length r < length ts"
    using Suc.IH by blast
  have IHM: "\<And>ts acc' v r. parseMembers n ts acc' = Some (v, r) \<Longrightarrow> length r < length ts"
    using Suc.IH by blast
  have V: "parseValue (Suc n) ts = Some (v, r) \<longrightarrow> length r < length ts"
    by (cases ts) (auto split: token.splits list.splits dest!: IHE IHM)
  have E: "parseElements (Suc n) ts acc = Some (v, r) \<longrightarrow> length r < length ts"
    by (auto split: option.splits list.splits token.splits dest!: IHV IHE)
  have M: "parseMembers (Suc n) ts acc' = Some (v, r) \<longrightarrow> length r < length ts"
    by (auto split: option.splits list.splits token.splits dest!: IHV IHM)
  from V E M show ?case by blast
qed


lemma parse_fuel:
  "(parseValue n ts = Some x \<longrightarrow> (\<forall>m \<ge> 2 * length ts. parseValue m ts = Some x)) \<and>
   (parseElements n ts acc = Some x \<longrightarrow> (\<forall>m \<ge> 2 * length ts + 1. parseElements m ts acc = Some x)) \<and>
   (parseMembers n ts acc' = Some x \<longrightarrow> (\<forall>m \<ge> 2 * length ts + 1. parseMembers m ts acc' = Some x))"
proof (induction n arbitrary: ts acc acc' x)
  case 0
  show ?case by simp
next
  case (Suc n)
  have IHV: "\<And>ts x m. parseValue n ts = Some x \<Longrightarrow> 2 * length ts \<le> m \<Longrightarrow> parseValue m ts = Some x"
    using Suc.IH by blast
  have IHE: "\<And>ts acc x m. parseElements n ts acc = Some x \<Longrightarrow> 2 * length ts + 1 \<le> m
        \<Longrightarrow> parseElements m ts acc = Some x"
    using Suc.IH by blast
  have IHM: "\<And>ts acc' x m. parseMembers n ts acc' = Some x \<Longrightarrow> 2 * length ts + 1 \<le> m
        \<Longrightarrow> parseMembers m ts acc' = Some x"
    using Suc.IH by blast
  have V: "parseValue m ts = Some x"
    if a: "parseValue (Suc n) ts = Some x" and m: "2 * length ts \<le> m" for m
  proof (cases ts)
    case Nil
    with a show ?thesis by simp
  next
    case (Cons t ts')
    with m obtain m' where m': "m = Suc m'" "2 * length ts' + 1 \<le> m'"
      by (cases m) auto
    show ?thesis
      using a Cons m' IHE [of ts' "[]" x m'] IHM [of ts' "[]" x m']
      by (auto split: token.splits list.splits)
  qed
  have E: "parseElements m ts acc = Some x"
    if a: "parseElements (Suc n) ts acc = Some x" and m: "2 * length ts + 1 \<le> m" for m
  proof -
    from a obtain v1 r1 where p: "parseValue n ts = Some (v1, r1)"
      by (auto split: option.splits)
    from m obtain m' where m': "m = Suc m'" "2 * length ts \<le> m'"
      by (cases m) auto
    have p': "parseValue m' ts = Some (v1, r1)"
      using IHV [OF p m'(2)] .
    have l: "length r1 < length ts"
      using parse_consumes [of n ts v1 r1] p by blast
    show ?thesis
    proof (cases r1)
      case Nil
      with a p show ?thesis by simp
    next
      case (Cons t r')
      have b: "2 * length r' + 1 \<le> m'"
        using l Cons m'(2) by simp
      show ?thesis
        using a p p' Cons m'(1) IHE [of r' "v1 # acc" x m', OF _ b]
        by (auto split: token.splits)
    qed
  qed
  have M: "parseMembers m ts acc' = Some x"
    if a: "parseMembers (Suc n) ts acc' = Some x" and m: "2 * length ts + 1 \<le> m" for m
  proof -
    from a obtain k r0 where ts: "ts = TStr k # TColon # r0"
      by (auto split: list.splits token.splits)
    with a obtain v1 r1 where p: "parseValue n r0 = Some (v1, r1)"
      by (auto split: option.splits)
    from m obtain m' where m': "m = Suc m'" "2 * length ts \<le> m'"
      by (cases m) auto
    have p': "parseValue m' r0 = Some (v1, r1)"
      using IHV [OF p] m'(2) ts by simp
    have l: "length r1 < length r0"
      using parse_consumes [of n r0 v1 r1] p by blast
    show ?thesis
    proof (cases r1)
      case Nil
      with a p ts show ?thesis by simp
    next
      case (Cons t r')
      have b: "2 * length r' + 1 \<le> m'"
        using l Cons m'(2) ts by simp
      show ?thesis
        using a p p' ts Cons m'(1) IHM [of r' "(k, v1) # acc'" x m', OF _ b]
        by (auto split: token.splits)
    qed
  qed
  from V E M show ?case by blast
qed

lemma parseValue_fuel_enough:
  "parseValue n ts = Some x \<Longrightarrow> parseValue (2 * length ts + 2) ts = Some x"
  using parse_fuel [of n ts x] by simp


lemma lexString_consumes:
  "lexString cs acc = Some (s, rest) \<Longrightarrow> length rest < length cs"
proof (induction "length cs" arbitrary: cs acc rule: less_induct)
  case less
  have IH: "\<And>cs2 acc2. length cs2 < length cs \<Longrightarrow> lexString cs2 acc2 = Some (s, rest)
              \<Longrightarrow> length rest < length cs2"
    using less.hyps by blast
  show ?case
  proof (cases cs)
    case Nil
    with less.prems show ?thesis by simp
  next
    case (Cons c cs1)
    have i1: "\<And>acc2. lexString cs1 acc2 = Some (s, rest) \<Longrightarrow> length rest < length cs1"
      using IH [of cs1] Cons by simp
    have i2: "\<And>e cs' acc2. cs1 = e # cs' \<Longrightarrow> lexString cs' acc2 = Some (s, rest)
                \<Longrightarrow> length rest < length cs'"
      using IH Cons by simp
    have i3: "\<And>e h1 h2 h3 h4 cs'' acc2. cs1 = e # h1 # h2 # h3 # h4 # cs''
                \<Longrightarrow> lexString cs'' acc2 = Some (s, rest) \<Longrightarrow> length rest < length cs''"
      using IH Cons by simp
    show ?thesis
      using less.prems Cons
      by (auto split: if_splits list.splits option.splits dest!: i1 dest: i2 i3)
  qed
qed


lemma startsNumber_isNumChar: "startsNumber c \<Longrightarrow> isNumChar c"
proof -
  have "set ''-0123456789'' \<subseteq> set ''+-.0123456789eE''"
    by simp
  then show "startsNumber c \<Longrightarrow> isNumChar c"
    unfolding startsNumber_def isNumChar_def by (rule subsetD)
qed

lemma nextToken_consumes:
  assumes a: "nextToken c cs = Some (t, rest)"
  shows "length rest \<le> length cs"
proof (cases "punctuation c")
  case (Some p)
  with a show ?thesis by (simp add: nextToken_def)
next
  case None
  show ?thesis
  proof (cases "c = CHR 34")
    case True
    with a None obtain x where "lexString cs [] = Some (x, rest)"
      by (auto simp: nextToken_def split: option.splits)
    then show ?thesis using lexString_consumes [of cs "[]" x rest] by simp
  next
    case q: False
    show ?thesis
    proof (cases "startsNumber c")
      case True
      then have "isNumChar c" by (rule startsNumber_isNumChar)
      moreover from a None q True have "rest = dropWhile isNumChar (c # cs)"
        by (simp add: nextToken_def Let_def split: if_splits)
      ultimately show ?thesis
        using length_dropWhile_le [of isNumChar cs] by simp
    next
      case False
      with a None q have "rest = drop 4 (c # cs) \<or> rest = drop 5 (c # cs)"
        by (simp add: nextToken_def split: if_splits)
      then show ?thesis by auto
    qed
  qed
qed

lemma lexer_fuel:
  "lexer n s = Some ts \<Longrightarrow> length s < m \<Longrightarrow> lexer m s = Some ts"
proof (induction n arbitrary: s ts m)
  case 0
  then show ?case by simp
next
  case (Suc n)
  from Suc.prems(2) obtain m' where m: "m = Suc m'" "length s \<le> m'"
    by (cases m) auto
  show ?case
  proof (cases s)
    case Nil
    with Suc.prems m show ?thesis by simp
  next
    case (Cons c cs)
    have cs: "length cs < m'" using m Cons by simp
    show ?thesis
    proof (cases "isJsonWhiteSpace c")
      case True
      with Suc.prems(1) Cons have "lexer n cs = Some ts" by simp
      then have "lexer m' cs = Some ts" using cs by (rule Suc.IH)
      with True Cons m(1) show ?thesis by simp
    next
      case False
      with Suc.prems(1) Cons obtain t rest ts' where
        nt: "nextToken c cs = Some (t, rest)" and l: "lexer n rest = Some ts'" and ts: "ts = t # ts'"
        by (auto split: option.splits)
      have "length rest < m'"
        using nextToken_consumes [OF nt] cs by simp
      with l have "lexer m' rest = Some ts'" by (rule Suc.IH)
      with False Cons m(1) nt ts show ?thesis by simp
    qed
  qed
qed

text \<open>The fuel of \<open>JSON_parse\<close> is enough: a text that any amount of fuel can tokenize and
  parse is parsed by \<open>JSON_parse\<close>, so \<open>None\<close> always stands for a syntax error.\<close>

lemma JSON_parse_complete:
  assumes "lexer n s = Some ts" and "parseValue k ts = Some (v, [])"
  shows "JSON_parse s = Some v"
proof -
  have "lexer (Suc (length s)) s = Some ts"
    using assms(1) by (rule lexer_fuel) simp
  moreover have "parseValue (2 * length ts + 2) ts = Some (v, [])"
    using assms(2) by (rule parseValue_fuel_enough)
  ultimately show ?thesis
    by (simp add: JSON_parse_def)
qed

section \<open>Properties of the response extraction\<close>

lemmas parse_numeral =
  parseValue.simps(3) [of "pred_numeral k", folded numeral_eq_Suc]
  parseElements.simps(2) [of "pred_numeral k", folded numeral_eq_Suc]
  parseMembers.simps(2) [of "pred_numeral k", folded numeral_eq_Suc]
  for k

lemmas json_eval = JSON_parse_def nextToken_def punctuation_def startsNumber_def isJsonWhiteSpace_def isDigit_def isNumChar_def parse_numeral
  validNumber_def validFrac_def validExp_def unescape_def hexValue_def

lemma takeWhile_upto: "c \<notin> set xs \<Longrightarrow> takeWhile (\<lambda>x. x \<noteq> c) (xs @ c # ys) = xs"
  by (induction xs) auto

lemma indexOf_first: "c \<notin> set pre \<Longrightarrow> indexOf (pre @ c # rest) c = int (length pre)"
  by (simp add: indexOf_def takeWhile_upto)

lemma substring_middle:
  "substring (pre @ m @ post) (int (length pre)) (int (length pre) + int (length m)) = m"
  by (simp add: substring_def Let_def min_def max_def)

lemma lastIndexOf_last: "c \<notin> set post \<Longrightarrow> lastIndexOf (pre @ c # post) c = int (length pre)"
proof -
  assume c: "c \<notin> set post"
  have "takeWhile (\<lambda>x. x \<noteq> c) (rev post @ c # rev pre) = rev post"
    using c by (simp add: takeWhile_upto)
  then show ?thesis
    by (simp add: lastIndexOf_def)
qed

lemma locateJson_embedded:
  assumes "CHR ''{'' \<notin> set pre" and "CHR ''}'' \<notin> set post"
  shows "locateJson (pre @ CHR ''{'' # mid @ ''}'' @ post) = Inr (CHR ''{'' # mid @ ''}'')"
proof -
  let ?t = "pre @ CHR ''{'' # mid @ ''}'' @ post"
  have f: "indexOf ?t (CHR ''{'') = int (length pre)"
    using assms(1) by (rule indexOf_first)
  have "lastIndexOf ((pre @ CHR ''{'' # mid) @ CHR ''}'' # post) (CHR ''}'') = int (length (pre @ CHR ''{'' # mid))"
    using assms(2) by (rule lastIndexOf_last)
  then have l: "lastIndexOf ?t (CHR ''}'') = int (length pre) + int (length mid) + 1"
    by simp
  have "substring (pre @ (CHR ''{'' # mid @ ''}'') @ post) (int (length pre))
          (int (length pre) + int (length (CHR ''{'' # mid @ ''}''))) = CHR ''{'' # mid @ ''}''"
    by (rule substring_middle)
  then have s: "substring ?t (int (length pre)) (int (length pre) + int (length mid) + 1 + 1) = CHR ''{'' # mid @ ''}''"
    by (simp add: add.commute add.left_commute)
  show ?thesis
    unfolding locateJson_def Let_def f l using s by simp
qed

lemma locateJson_missing:
  "CHR ''{'' \<notin> set t \<or> CHR ''}'' \<notin> set t \<Longrightarrow> locateJson t = Inl NoJsonFoundError"
  by (auto simp: locateJson_def indexOf_def lastIndexOf_def Let_def)

lemma friendlyMessage_parseFailed: "friendlyMessage parseFailedMessage = parseFailedMessage"
  by (simp add: friendlyMessage_def parseFailedMessage_def)

lemma JSON_parse_sampleObject: "JSON_parse sampleObject = Some sampleValue"
  by (simp add: sampleObject_def sampleMembers_def quoted_def sampleValue_def units_def json_eval)

lemma validateResponse_sampleValue: "validateResponse sampleValue = Inr sampleValue"
  by (simp add: validateResponse_def sampleValue_def getProp_def units_def)

text \<open>Number literals are read by value: one below half the least positive double is zero,
  hence falsy, and an object whose \<open>claims\<close> is such a number is rejected by the
  validation, as in the host.\<close>

lemma numValue_samples:
  "numValue ''-12.5e+3'' = - 12500" "numValue ''0.25'' = 1 / 4" "numValue ''1E2'' = 100"
  by (simp_all add: numValue_def decimal_def digitValue_def hexValue_def isDigit_def)

lemma numIsZero_samples:
  "numIsZero ''1e-400''" "numIsZero ''-0.000e5''" "\<not> numIsZero ''1''" "\<not> numIsZero ''5e-324''"
  by (simp_all add: numIsZero_def numValue_def decimal_def digitValue_def hexValue_def isDigit_def)

lemma extractJson_underflowText:
  "JSON_parse underflowText
     = Some (JObj [(units ''claims'', JNum ''1e-400''),
                   (units ''overall_verdict'', JStr (units ''true''))]) \<and>
   extractJson underflowText = Inl SchemaViolationError"
proof -
  have p: "JSON_parse underflowText
     = Some (JObj [(units ''claims'', JNum ''1e-400''),
                   (units ''overall_verdict'', JStr (units ''true''))])"
    by (simp add: underflowText_def quoted_def units_def json_eval)
  have l: "locateJson underflowText = Inr underflowText"
    by (simp add: underflowText_def quoted_def locateJson_def indexOf_def lastIndexOf_def
        substring_def Let_def)
  have v: "validateResponse (JObj [(units ''claims'', JNum ''1e-400''),
                                   (units ''overall_verdict'', JStr (units ''true''))])
             = Inl SchemaViolationError"
    by (simp add: validateResponse_def getProp_def units_def numIsZero_samples)
  show ?thesis
    using p by (simp only: extractJson_def l p v sum.case option.case simp_thms)
qed

text \<open>An escape \<open>\u\<close> stands for its code unit, whatever its value.\<close>

lemma extractJson_wideEscapeText:
  "extractJson wideEscapeText
     = Inr (JObj [(units ''claims'', JArr []), (units ''overall_verdict'', JStr [8212])])"
proof -
  have p: "JSON_parse wideEscapeText
     = Some (JObj [(units ''claims'', JArr []), (units ''overall_verdict'', JStr [8212])])"
    by (simp add: wideEscapeText_def quoted_def units_def json_eval)
  have l: "locateJson wideEscapeText = Inr wideEscapeText"
    by (simp add: wideEscapeText_def quoted_def locateJson_def indexOf_def lastIndexOf_def
        substring_def Let_def)
  have v: "validateResponse (JObj [(units ''claims'', JArr []),
                                   (units ''overall_verdict'', JStr [8212])])
      = Inr (JObj [(units ''claims'', JArr []), (units ''overall_verdict'', JStr [8212])])"
    by (simp add: validateResponse_def getProp_def units_def)
  show ?thesis
    by (simp only: extractJson_def l p v sum.case option.case)
qed

text \<open>
  Claim C1, as the code has it. When the text before the object holds no opening brace and
  the text after it holds no closing brace (prose and code fences without braces), the
  substring from the first \<open>{\<close> to the last \<open>}\<close> is exactly the text of the object, and
  the extraction returns the value that text parses to, provided the value carries truthy
  \<open>claims\<close> and \<open>overall_verdict\<close>: neither missing, \<open>null\<close>, \<open>false\<close>, an empty string, nor
  a number that is read as zero.
\<close>

theorem extractJson_recovers_embedded_object:
  assumes "CHR ''{'' \<notin> set pre" and "CHR ''}'' \<notin> set post"
    and "JSON_parse (CHR ''{'' # mid @ ''}'') = Some v"
    and "truthy (getProp v ''claims'')" and "truthy (getProp v ''overall_verdict'')"
  shows "locateJson (pre @ CHR ''{'' # mid @ ''}'' @ post) = Inr (CHR ''{'' # mid @ ''}'') \<and>
         extractJson (pre @ CHR ''{'' # mid @ ''}'' @ post) = Inr v"
proof -
  have l: "locateJson (pre @ CHR ''{'' # mid @ ''}'' @ post) = Inr (CHR ''{'' # mid @ ''}'')"
    using assms(1,2) by (rule locateJson_embedded)
  have "v \<noteq> JNull"
    using assms(4) by (auto simp: getProp_def)
  then have "validateResponse v = Inr v"
    using assms(4,5) by (simp add: validateResponse_def)
  then show ?thesis
    using l assms(3) by (simp add: extractJson_def)
qed


theorem extractJson_recovers_embedded_object_witness:
  "CHR ''{'' \<notin> set (''Sure! ```json'' @ [CHR 10]) \<and> CHR ''}'' \<notin> set ([CHR 10] @ ''```'') \<and>
   extractJson ((''Sure! ```json'' @ [CHR 10]) @ CHR ''{'' # sampleMembers @ ''}'' @ ([CHR 10] @ ''```''))
     = Inr sampleValue"
proof -
  have a: "CHR ''{'' \<notin> set (''Sure! ```json'' @ [CHR 10])" by simp
  have b: "CHR ''}'' \<notin> set ([CHR 10] @ ''```'')" by simp
  have p: "JSON_parse (CHR ''{'' # sampleMembers @ ''}'') = Some sampleValue"
    using JSON_parse_sampleObject by (simp add: sampleObject_def)
  have c: "truthy (getProp sampleValue ''claims'')"
    by (simp add: sampleValue_def getProp_def units_def)
  have d: "truthy (getProp sampleValue ''overall_verdict'')"
    by (simp add: sampleValue_def getProp_def units_def)
  show ?thesis
    using a b extractJson_recovers_embedded_object [OF a b p c d] by simp
qed

text \<open>
  The claim as stated fails for surrounding text with a brace of its own: behind the prose
  \<open>Result {JSON}: \<close> the candidate starts at the brace of the prose, and parsing it fails,
  although the object alone is extracted.
\<close>

theorem extractJson_braces_in_prose:
  "extractJson sampleObject = Inr sampleValue \<and>
   locateJson (''Result {JSON}: '' @ sampleObject) = Inr (''{JSON}: '' @ sampleObject) \<and>
   extractJson (''Result {JSON}: '' @ sampleObject) = Inl MalformedJsonError"
proof -
  have l0: "locateJson sampleObject = Inr sampleObject"
    using locateJson_embedded [of "[]" "[]" sampleMembers] by (simp add: sampleObject_def)
  have l1: "locateJson (''Result {JSON}: '' @ sampleObject) = Inr (''{JSON}: '' @ sampleObject)"
    using locateJson_embedded [of "''Result ''" "[]" "''JSON}: '' @ CHR ''{'' # sampleMembers"]
    by (simp add: sampleObject_def)
  have p: "JSON_parse (''{JSON}: '' @ sampleObject) = None"
    by (simp add: sampleObject_def sampleMembers_def quoted_def json_eval)
  have e0: "extractJson sampleObject = Inr sampleValue"
    by (simp only: extractJson_def l0 JSON_parse_sampleObject validateResponse_sampleValue
        sum.case option.case)
  have e1: "extractJson (''Result {JSON}: '' @ sampleObject) = Inl MalformedJsonError"
    by (simp only: extractJson_def l1 p sum.case option.case)
  show ?thesis
    using e0 l1 e1 by (intro conjI)
qed

text \<open>
  Claim C2, as the code has it. A text without an opening brace or without a closing brace
  makes the extraction raise the no-JSON condition; the \<open>catch\<close> around it turns that into
  the one parse-failure message, and that message is what \<open>analyzeContent\<close> rejects with.
  No result is returned.
\<close>

theorem extractJson_missing_delimiter:
  assumes "CHR ''{'' \<notin> set t \<or> CHR ''}'' \<notin> set t"
  shows "extractJson t = Inl NoJsonFoundError \<and>
         extractOrThrow t = Inl parseFailedMessage \<and>
         (apiKey ai = Some k \<and> k \<noteq> [] \<and> t \<noteq> [] \<and>
          generateContent ai (modelId mode) (buildParts text' img mode) = Inr (Some t)
            \<longrightarrow> analyzeContent ai text' img mode = Inl parseFailedMessage)"
proof -
  have e: "extractJson t = Inl NoJsonFoundError"
    using locateJson_missing [OF assms] by (simp add: extractJson_def)
  then have o: "extractOrThrow t = Inl parseFailedMessage"
    by (simp add: extractOrThrow_def)
  show ?thesis
    using e o
    by (auto simp: analyzeContent_def analyzeBody_def friendlyMessage_parseFailed)
qed

theorem extractJson_missing_delimiter_witness:
  "extractJson ''I could not verify this {yet.'' = Inl NoJsonFoundError \<and>
   analyzeContent (answering ''I could not verify this {yet.'') ''Is the moon landing fake?'' None standard
     = Inl parseFailedMessage"
  using extractJson_missing_delimiter
    [of "''I could not verify this {yet.''" "answering ''I could not verify this {yet.''" "''key''"
        standard "''Is the moon landing fake?''" None]
  by (simp add: answering_def)

text \<open>
  The claim as stated fails for unbalanced braces: only the presence of the two delimiters
  is tested. A stray closing brace before a well-formed object leaves the object
  extracted and returned; and \<open>{{}\<close> fails in \<open>JSON.parse\<close>, not at the guard.
\<close>

theorem extractJson_unbalanced_braces:
  "extractJson (''}'' @ sampleObject) = Inr sampleValue \<and>
   extractJson ''{{}'' = Inl MalformedJsonError"
proof -
  have l1: "locateJson (''}'' @ sampleObject) = Inr sampleObject"
    using locateJson_embedded [of "''}''" "[]" sampleMembers] by (simp add: sampleObject_def)
  have l2: "locateJson ''{{}'' = Inr ''{{}''"
    using locateJson_embedded [of "[]" "[]" "''{''"] by simp
  have p: "JSON_parse ''{{}'' = None"
    by (simp add: json_eval)
  have e1: "extractJson (''}'' @ sampleObject) = Inr sampleValue"
    by (simp only: extractJson_def l1 JSON_parse_sampleObject validateResponse_sampleValue
        sum.case option.case)
  have e2: "extractJson ''{{}'' = Inl MalformedJsonError"
    by (simp only: extractJson_def l2 p sum.case option.case)
  show ?thesis
    using e1 e2 by (intro conjI)
qed

lemma violates_claims_array:
  "violatesEvidenceInvariant j \<Longrightarrow> \<exists>cs. getProp j ''claims'' = Some (JArr cs)"
  by (auto simp: violatesEvidenceInvariant_def split: option.splits json.splits)

text \<open>
  Claim C3, as the code has it. The validation tests the presence of \<open>claims\<close> and
  \<open>overall_verdict\<close> and nothing else: a parsed result with a claim whose verdict is not
  \<open>unknown\<close> and whose evidence is empty is returned unchanged, whenever its overall verdict
  is a non-empty string.
\<close>

theorem validateResponse_ignores_evidence:
  assumes "violatesEvidenceInvariant j"
    and "getProp j ''overall_verdict'' = Some (JStr v)" and "v \<noteq> []"
  shows "validateResponse j = Inr j"
proof -
  obtain cs where cs: "getProp j ''claims'' = Some (JArr cs)"
    using violates_claims_array [OF assms(1)] by blast
  have "j \<noteq> JNull"
    using cs by (auto simp: getProp_def)
  then show ?thesis
    using cs assms(2,3) by (simp add: validateResponse_def)
qed

theorem validateResponse_ignores_evidence_witness:
  "violatesEvidenceInvariant unsupportedVerdict \<and>
   getProp unsupportedVerdict ''overall_verdict'' = Some (JStr (units ''false'')) \<and>
   validateResponse unsupportedVerdict = Inr unsupportedVerdict"
proof -
  have a: "violatesEvidenceInvariant unsupportedVerdict"
    by (simp add: violatesEvidenceInvariant_def unsupportedVerdict_def getProp_def claimLacksEvidence_def
        units_def)
  have b: "getProp unsupportedVerdict ''overall_verdict'' = Some (JStr (units ''false''))"
    by (simp add: unsupportedVerdict_def getProp_def units_def)
  show ?thesis
    using a b validateResponse_ignores_evidence [OF a b] by (simp add: units_def)
qed

text \<open>
  The claim as stated fails: a response whose only claim is judged \<open>false\<close> on no evidence
  comes back from \<open>analyzeContent\<close> as a success.
\<close>

theorem analyzeContent_returns_unsupported_verdict:
  "analyzeContent (answering unsupportedVerdictText) ''The moon is made of cheese'' None standard
     = Inr unsupportedVerdict \<and>
   violatesEvidenceInvariant unsupportedVerdict"
proof -
  have p: "JSON_parse unsupportedVerdictText = Some unsupportedVerdict"
    by (simp add: unsupportedVerdictText_def unsupportedVerdict_def quoted_def units_def json_eval)
  have l: "locateJson unsupportedVerdictText = Inr unsupportedVerdictText"
    by (simp add: unsupportedVerdictText_def quoted_def locateJson_def indexOf_def lastIndexOf_def
        substring_def Let_def)
  have v: "validateResponse unsupportedVerdict = Inr unsupportedVerdict"
    by (simp add: validateResponse_def unsupportedVerdict_def getProp_def units_def)
  have n: "unsupportedVerdictText \<noteq> []"
    by (simp add: unsupportedVerdictText_def)
  have a: "violatesEvidenceInvariant unsupportedVerdict"
    by (simp add: violatesEvidenceInvariant_def unsupportedVerdict_def getProp_def claimLacksEvidence_def
        units_def)
  show ?thesis
    using n a by (simp add: analyzeContent_def analyzeBody_def answering_def extractOrThrow_def
        extractJson_def l p v)
qed

lemma analyzeContent_answering_sample:
  "analyzeContent (answering sampleObject) t img mode = Inr sampleValue"
proof -
  have l0: "locateJson sampleObject = Inr sampleObject"
    using locateJson_embedded [of "[]" "[]" sampleMembers] by (simp add: sampleObject_def)
  have e0: "extractJson sampleObject = Inr sampleValue"
    by (simp only: extractJson_def l0 JSON_parse_sampleObject validateResponse_sampleValue
        sum.case option.case)
  have n: "sampleObject \<noteq> []"
    by (simp add: sampleObject_def)
  show ?thesis
    using n by (simp add: analyzeContent_def analyzeBody_def answering_def extractOrThrow_def e0)
qed

section \<open>Properties of the application component\<close>

lemma reachable_state_invariant:
  "reachable saved a \<Longrightarrow> status (state a) = St_complete \<or> data (state a) = None"
  by (induction rule: reachable.induct)
     (auto simp add: initialApp_def handleImageSelect_def handlePdfSelect_def removeMedia_def
        clearAll_def setIdle_def handleSubmit_begin_def handleSubmit_settle_def addToHistory_def
        errorState_def Let_def split: sum.splits if_splits option.splits)

text \<open>
  Claim C10. In every state the component can reach, \<open>data\<close> is set only when the status
  is \<open>complete\<close>; in the states \<open>idle\<close>, \<open>analyzing\<close> and \<open>error\<close> it is \<open>null\<close>. The
  settlement of a submission may arrive in any state reached meanwhile.
\<close>

theorem reachable_data_only_when_complete:
  "reachable saved a \<Longrightarrow>
     (data (state a) \<noteq> None \<longrightarrow> status (state a) = St_complete) \<and>
     (status (state a) \<in> {St_idle, St_analyzing, St_error} \<longrightarrow> data (state a) = None)"
  using reachable_state_invariant [of saved a] by auto

lemma submitOutcome_noKey: "\<exists>m. submitOutcome moonQuestion noKeyWorld = Inl m"
  by (simp add: submitOutcome_def moonQuestion_def initialApp_def finalInputText_def noKeyWorld_def
      analyzeContent_def analyzeBody_def)

theorem reachable_data_only_when_complete_witness:
  "reachable None (handleSubmit noKeyWorld moonQuestion) \<and>
   status (state (handleSubmit noKeyWorld moonQuestion)) = St_error \<and>
   data (state (handleSubmit noKeyWorld moonQuestion)) = None"
proof -
  have c: "canSubmit moonQuestion"
    by (simp add: canSubmit_def moonQuestion_def trim_def isWhiteSpace_def)
  have r0: "reachable None moonQuestion"
    unfolding moonQuestion_def by (intro r_input r_init)
  have r: "reachable None (handleSubmit noKeyWorld moonQuestion)"
    using c by (simp add: handleSubmit_def r_settle [OF r0 c r_begin [OF r0]])
  obtain m where m: "submitOutcome moonQuestion noKeyWorld = Inl m"
    using submitOutcome_noKey by blast
  have s: "status (state (handleSubmit noKeyWorld moonQuestion)) = St_error"
    using c by (simp add: handleSubmit_def handleSubmit_settle_def errorState_def m)
  show ?thesis
    using r s reachable_data_only_when_complete [OF r] by simp
qed

subsection \<open>The history\<close>


lemma settle_success:
  "submitOutcome c w = Inr res \<Longrightarrow> setItemError w = None \<Longrightarrow>
   history (handleSubmit_settle c w a) = take 10 (newItem w (historyQuery c) res # history c) \<and>
   stored (handleSubmit_settle c w a) = Some (take 10 (newItem w (historyQuery c) res # history c)) \<and>
   state (handleSubmit_settle c w a) = \<lparr>status = St_complete, data = Some res, error = None\<rparr>"
  by (simp add: handleSubmit_settle_def addToHistory_def Let_def)











lemma tenEntries_dates: "map date tenEntries = [10, 9, 8, 7, 6, 5, 4, 3, 2, 1]"
  by (simp add: tenEntries_def oldEntry_def)





text \<open>
  It fails on the eviction too when two submissions overlap. The second one was started
  from a render that did not hold the entry of the first yet; its settlement puts its
  entry before the history of that render, and the entry of the first is gone from the
  component and from the storage with one of the ten places taken.
\<close>

theorem history_overlapping_submissions_lose_entry:
  "reachable None firstSettled \<and> reachable None bothSettled \<and>
   map hist_id (history firstSettled) = [''42''] \<and>
   stored firstSettled = Some (history firstSettled) \<and>
   map hist_id (history bothSettled) = [''99''] \<and>
   stored bothSettled = Some (history bothSettled) \<and>
   status (state bothSettled) = St_complete"
proof -
  define S2 where "S2 = setIdle (handleSubmit_begin moonQuestion)"
  have c0: "canSubmit moonQuestion"
    by (simp add: canSubmit_def moonQuestion_def trim_def isWhiteSpace_def)
  have f2: "inputText S2 = ''Is the moon landing fake?''" "selectedPdf S2 = None" "history S2 = []"
    by (simp_all add: S2_def setIdle_def handleSubmit_begin_def moonQuestion_def initialApp_def)
  have f0: "inputText moonQuestion = ''Is the moon landing fake?''" "selectedPdf moonQuestion = None"
      "history moonQuestion = []"
    by (simp_all add: moonQuestion_def initialApp_def)
  have c2: "canSubmit S2"
    by (simp add: canSubmit_def f2 trim_def isWhiteSpace_def)
  have r0: "reachable None moonQuestion"
    unfolding moonQuestion_def by (intro r_input r_init)
  have r2: "reachable None S2"
    unfolding S2_def by (intro r_idle r_begin r0)
  have r3: "reachable None secondStarted"
    unfolding secondStarted_def by (intro r_begin r_idle r0)
  have r4: "reachable None firstSettled"
    unfolding firstSettled_def by (rule r_settle [OF r0 c0 r3])
  have r5: "reachable None bothSettled"
    unfolding bothSettled_def S2_def [symmetric] by (rule r_settle [OF r2 c2 r4])
  have o1: "submitOutcome moonQuestion okWorld = Inr sampleValue"
    by (simp add: submitOutcome_def finalInputText_def f0 okWorld_def analyzeContent_answering_sample)
  have o2: "submitOutcome S2 laterWorld = Inr sampleValue"
    by (simp add: submitOutcome_def finalInputText_def f2 okWorld_def laterWorld_def
        analyzeContent_answering_sample)
  have w: "setItemError okWorld = None" "setItemError laterWorld = None"
      "clockId okWorld = 42" "clockId laterWorld = 99"
    by (simp_all add: okWorld_def laterWorld_def)
  have h4: "history firstSettled = [newItem okWorld (historyQuery moonQuestion) sampleValue]"
      "stored firstSettled = Some (history firstSettled)"
    using settle_success [OF o1 w(1), of secondStarted] by (simp_all add: firstSettled_def f0)
  have h5: "history bothSettled = [newItem laterWorld (historyQuery S2) sampleValue]"
      "stored bothSettled = Some (history bothSettled)" "status (state bothSettled) = St_complete"
    using settle_success [OF o2 w(2), of firstSettled]
    by (simp_all add: bothSettled_def S2_def [symmetric] f2)
  have i4: "map hist_id (history firstSettled) = [''42'']"
    by (simp add: h4(1) newItem_def w toString.simps digit_char_def)
  have i5: "map hist_id (history bothSettled) = [''99'']"
    by (simp add: h5(1) newItem_def w toString.simps digit_char_def)
  show ?thesis
    using r4 r5 i4 h4(2) i5 h5(2,3) by simp
qed

text \<open>
  Claim C8. The inline part is tagged \<open>image/jpeg\<close> whatever the type of the file: a PNG
  image selected for analysis is sent under that tag.
\<close>

theorem png_image_tagged_as_jpeg:
  "file_type pngFile = ''image/png'' \<and>
   requestParts (handleImageSelect pngFile (initialApp None)) =
     Inr [InlineData ''iVBORw0KGgo='' ''image/jpeg'', TextPart ''Analyze this image. '']"
  by (simp add: pngFile_def requestParts_def handleImageSelect_def initialApp_def finalInputText_def
      base64Image_def fileToBase64_def dataUrl_def buildParts_def promptPrefix_def)


end
